theory Spec2Isabelle
  imports Main
begin

section \<open>Graph model\<close>

text \<open>
  The graph compiler of \<^verbatim>\<open>src/graph.ts\<close> works on nodes, edges and a graph
  (declared in \<^verbatim>\<open>nodestuff\<close>, read here from the way the compiler uses
  their fields). Field names carry a prefix because record selectors are global.
\<close>

datatype ShaderStage = fragment | vertex

datatype ShaderType = output_type | shader_type | add_type | multiply_type | OtherType string

record Node =
  node_id :: string
  node_name :: string
  node_type :: ShaderType
  node_stage :: "ShaderStage option"
  node_source :: "string option"
  node_expressionOnly :: bool
  node_nextStageNodeId :: "string option"
  node_originalEngine :: "string option"

record Edge =
  edge_from :: string
  edge_to :: string
  edge_output :: string
  edge_input :: string
  edge_stage :: "ShaderStage option"

record Graph =
  graph_nodes :: "Node list"
  graph_edges :: "Edge list"

text \<open>Every \<^verbatim>\<open>throw\<close> of the source is a value; \<open>OutOfFuel\<close> stands for a
  recursion that does not return (a cyclic graph).\<close>

datatype Error =
    MissingParser ShaderType
  | MissingOutputNode ShaderStage
  | MissingNodeContext string
  | DanglingEdge string
  | MissingFillerAst string
  | MissingInputs
  | UnknownInputPort string string
  | MissingFillerTarget string
  | NoAssignNode
  | SyntaxError string
  | TypeError string
  | ExternalError string
  | OutOfFuel

section \<open>Syntax trees\<close>

text \<open>
  The external parser's trees are JavaScript objects: a node is an object with a
  \<^verbatim>\<open>type\<close> property, its other properties hold strings, nodes or arrays of
  nodes. The model keeps that shape, so that each property access of the source is a
  lookup here.
\<close>

datatype AstNode =
    AstObj "(string \<times> AstNode) list"
  | AstArr "AstNode list"
  | AstStr string

fun getProp :: "string \<Rightarrow> AstNode \<Rightarrow> AstNode option" where
  "getProp k (AstObj ps) = map_of ps k"
| "getProp k (AstArr xs) = None"
| "getProp k (AstStr s) = None"

definition isNode :: "AstNode \<Rightarrow> bool" where
  "isNode n = (getProp ''type'' n \<noteq> None)"

definition typeOf :: "AstNode \<Rightarrow> string option" where
  "typeOf n = (case getProp ''type'' n of Some (AstStr t) \<Rightarrow> Some t | _ \<Rightarrow> None)"

text \<open>\<open>a?.b?.c\<close>: a chain of optional property accesses.\<close>

fun getPath :: "string list \<Rightarrow> AstNode \<Rightarrow> AstNode option" where
  "getPath [] n = Some n"
| "getPath (k # ks) n = (case getProp k n of None \<Rightarrow> None | Some m \<Rightarrow> getPath ks m)"

text \<open>
  A path names the slot a visited node sits in: the property key of its parent and, for
  a child held in an array, its index. The root has the empty path (no parent, no key).
\<close>

type_synonym Step = "string \<times> nat option"
type_synonym Path = "Step list"

text \<open>
  Modelled from the spec: \<^verbatim>\<open>visit(Tree, visitors)\<close> of the external parsing
  library, a tree walk with per-node-kind enter hooks and a parent/key path. The walk
  is pre-order over the node-valued properties (but \<^verbatim>\<open>type\<close>) in property
  order; \<open>skip\<close> says at which nodes an enter hook calls \<^verbatim>\<open>path.skip()\<close>.
  The result lists the nodes in the order their enter hooks run.
\<close>

fun visit :: "(AstNode \<Rightarrow> bool) \<Rightarrow> Path \<Rightarrow> AstNode \<Rightarrow> (Path \<times> AstNode) list"
  and visit_props :: "(AstNode \<Rightarrow> bool) \<Rightarrow> Path \<Rightarrow> (string \<times> AstNode) list \<Rightarrow> (Path \<times> AstNode) list"
  and visit_elems :: "(AstNode \<Rightarrow> bool) \<Rightarrow> Path \<Rightarrow> string \<Rightarrow> nat \<Rightarrow> AstNode list \<Rightarrow> (Path \<times> AstNode) list"
where
  "visit skip p (AstObj ps) =
     (p, AstObj ps) # (if skip (AstObj ps) then [] else visit_props skip p ps)"
| "visit skip p (AstArr xs) = []"
| "visit skip p (AstStr s) = []"
| "visit_props skip p [] = []"
| "visit_props skip p ((k, AstObj qs) # ps) =
     (if k \<noteq> ''type'' \<and> isNode (AstObj qs) then visit skip (p @ [(k, None)]) (AstObj qs) else [])
     @ visit_props skip p ps"
| "visit_props skip p ((k, AstArr xs) # ps) =
     (if k \<noteq> ''type'' then visit_elems skip p k 0 xs else []) @ visit_props skip p ps"
| "visit_props skip p ((k, AstStr s) # ps) = visit_props skip p ps"
| "visit_elems skip p k i [] = []"
| "visit_elems skip p k i (x # xs) =
     (if isNode x then visit skip (p @ [(k, Some i)]) x else [])
     @ visit_elems skip p k (Suc i) xs"


text \<open>
  Modelled from the spec: the splice a visitor performs through the parent/key path of
  a visited node (\<^verbatim>\<open>path.parent[path.key] = x\<close>): the subtree in the slot the
  path names is replaced, everything else is kept. Trees are values here, so a filler
  takes the current tree and returns the new one.
\<close>

fun replace_at :: "Path \<Rightarrow> AstNode \<Rightarrow> AstNode \<Rightarrow> AstNode" where
  "replace_at [] new t = new"
| "replace_at ((k, None) # p) new (AstObj ps) =
     AstObj (map (\<lambda>(k', v). if k' = k then (k', replace_at p new v) else (k', v)) ps)"
| "replace_at ((k, Some i) # p) new (AstObj ps) =
     AstObj (map (\<lambda>(k', v). if k' = k
        then (k', case v of
                    AstArr xs \<Rightarrow> AstArr (if i < length xs then xs[i := replace_at p new (xs ! i)] else xs)
                  | _ \<Rightarrow> v)
        else (k', v)) ps)"
| "replace_at (st # p) new (AstArr xs) = AstArr xs"
| "replace_at (st # p) new (AstStr s) = AstStr s"

fun subtree :: "Path \<Rightarrow> AstNode \<Rightarrow> AstNode option" where
  "subtree [] t = Some t"
| "subtree ((k, None) # p) t = (case getProp k t of Some v \<Rightarrow> subtree p v | None \<Rightarrow> None)"
| "subtree ((k, Some i) # p) t =
     (case getProp k t of
        Some (AstArr xs) \<Rightarrow> if i < length xs then subtree p (xs ! i) else None
      | _ \<Rightarrow> None)"

section \<open>Contexts, parsers and engines\<close>

text \<open>
  A filler is a closure \<^verbatim>\<open>(a: AstNode) => void\<close> that mutates the tree of its
  node in place: here a function from the filler tree and the node's current tree to
  the new tree, or the error it throws.
\<close>

type_synonym Filler = "AstNode \<Rightarrow> AstNode \<Rightarrow> Error + AstNode"
type_synonym NodeInputs = "string \<rightharpoonup> Filler"

record NodeContext =
  nc_ast :: AstNode
  nc_source :: "string option"
  nc_inputs :: "NodeInputs option"
  nc_id :: "string option"
  nc_name :: "string option"

record DebuggingNonsense =
  dbg_vertexSource :: "string option"
  dbg_vertexPreprocessed :: "string option"
  dbg_fragmentPreprocessed :: "string option"
  dbg_fragmentSource :: "string option"

record 'r EngineContext =
  ctx_engine :: string
  ctx_compileCount :: nat
  ctx_nodes :: "string \<rightharpoonup> NodeContext"
  ctx_runtime :: 'r
  ctx_debuggingNonsense :: DebuggingNonsense

text \<open>
  What a parser reads of the engine it is given: its name and its preserved identifiers.
  The parser table itself is the third field of \<open>Engine\<close> below (a record cannot hold
  functions of its own type, so \<^verbatim>\<open>produceAst\<close> receives the engine without
  the table; no parser of this file reads it).
\<close>

record EngineSettings =
  engine_name :: string
  engine_preserve :: "string set"

record 'r ShaderParser =
  produceAst :: "'r EngineContext \<Rightarrow> EngineSettings \<Rightarrow> Graph \<Rightarrow> Node \<Rightarrow> Edge list \<Rightarrow> Error + AstNode"
  findInputs :: "'r EngineContext \<Rightarrow> Node \<Rightarrow> AstNode \<Rightarrow> NodeContext \<Rightarrow> Edge list \<Rightarrow> Error + NodeInputs"
  produceFiller :: "Node \<Rightarrow> AstNode \<Rightarrow> AstNode option"

datatype 'r NodeParser =
    ProgramParser "('r EngineContext \<Rightarrow> Node \<Rightarrow> 'r EngineContext) option" "'r ShaderParser" "'r ShaderParser"
  | SingleParser "'r ShaderParser"

record 'r Engine = EngineSettings +
  engine_parsers :: "ShaderType \<Rightarrow> 'r NodeParser option"

text \<open>\<^verbatim>\<open>stage in parser ? parser[stage] : parser\<close>. A program parser asked
  without a stage has no \<^verbatim>\<open>produceAst\<close> of its own.\<close>

fun stageParser :: "ShaderStage option \<Rightarrow> 'r NodeParser \<Rightarrow> 'r ShaderParser option" where
  "stageParser (Some fragment) (ProgramParser h f v) = Some f"
| "stageParser (Some vertex) (ProgramParser h f v) = Some v"
| "stageParser None (ProgramParser h f v) = None"
| "stageParser st (SingleParser p) = Some p"

fun onBeforeCompile :: "'r NodeParser \<Rightarrow> ('r EngineContext \<Rightarrow> Node \<Rightarrow> 'r EngineContext) option" where
  "onBeforeCompile (ProgramParser h f v) = h"
| "onBeforeCompile (SingleParser p) = None"

section \<open>Strings\<close>

definition alphabet :: string where
  "alphabet = ''abcdefghijklmnopqrstuvwxyz''"

text \<open>\<^verbatim>\<open>String.prototype.charAt\<close>: the empty string out of range.\<close>

definition charAt :: "string \<Rightarrow> nat \<Rightarrow> string" where
  "charAt s i = (if i < length s then [s ! i] else [])"

text \<open>\<^verbatim>\<open>Array.prototype.join\<close>.\<close>

fun join :: "string \<Rightarrow> string list \<Rightarrow> string" where
  "join sep [] = []"
| "join sep [x] = x"
| "join sep (x # y # ys) = x @ sep @ join sep (y # ys)"

definition alnum :: "char \<Rightarrow> bool" where
  "alnum c = (c \<in> set ''abcdefghijklmnopqrstuvwxyzABCDEFGHIJKLMNOPQRSTUVWXYZ0123456789'')"

text \<open>\<^verbatim>\<open>.replace(/ +/g, '_')\<close>: every run of spaces becomes one underscore.\<close>

fun underscoreRuns :: "string \<Rightarrow> string" where
  "underscoreRuns [] = []"
| "underscoreRuns [c] = (if c = CHR '' '' then ''_'' else [c])"
| "underscoreRuns (c # d # cs) =
     (if c = CHR '' '' then (if d = CHR '' '' then underscoreRuns (d # cs) else CHR ''_'' # underscoreRuns (d # cs))
      else c # underscoreRuns (d # cs))"

definition nodeName :: "Node \<Rightarrow> string" where
  "nodeName node =
     ''main_'' @ underscoreRuns (map (\<lambda>c. if alnum c then c else CHR '' '') (node_name node))"


section \<open>Expressions built from text\<close>

definition mkLiteral :: "string \<Rightarrow> AstNode" where
  "mkLiteral s = AstObj [(''type'', AstStr ''literal''), (''literal'', AstStr s)]"

definition mkIdentifier :: "string \<Rightarrow> AstNode" where
  "mkIdentifier s = AstObj [(''type'', AstStr ''identifier''), (''identifier'', AstStr s)]"

definition mkBinary :: "string \<Rightarrow> AstNode \<Rightarrow> AstNode \<Rightarrow> AstNode" where
  "mkBinary operator l r =
     AstObj [(''type'', AstStr ''binary''), (''operator'', mkLiteral operator),
             (''left'', l), (''right'', r)]"

definition mkCall :: "string \<Rightarrow> AstNode" where
  "mkCall f =
     AstObj [(''type'', AstStr ''function_call''),
             (''identifier'', AstObj [(''type'', AstStr ''type_specifier''),
                                      (''specifier'', mkIdentifier f)]),
             (''lp'', mkLiteral ''(''), (''args'', AstArr []), (''rp'', mkLiteral '')'')]"

fun split_on :: "char \<Rightarrow> string \<Rightarrow> string list" where
  "split_on c [] = [[]]"
| "split_on c (x # xs) =
     (if x = c then [] # split_on c xs
      else (case split_on c xs of [] \<Rightarrow> [[x]] | w # ws \<Rightarrow> (x # w) # ws))"

definition isIdentifier :: "string \<Rightarrow> bool" where
  "isIdentifier s =
     (case s of [] \<Rightarrow> False
      | c # cs \<Rightarrow> c \<notin> set ''0123456789'' \<and> list_all (\<lambda>d. alnum d \<or> d = CHR ''_'') (c # cs))"

definition binaryOperator :: "string \<Rightarrow> bool" where
  "binaryOperator s = (s \<in> {''+'', ''-'', ''*'', ''/''})"

definition parseOperand :: "string \<Rightarrow> Error + AstNode" where
  "parseOperand tok =
     (if isIdentifier tok then Inr (mkIdentifier tok)
      else if 2 < length tok \<and> drop (length tok - 2) tok = ''()''
              \<and> isIdentifier (take (length tok - 2) tok)
        then Inr (mkCall (take (length tok - 2) tok))
      else Inl (SyntaxError tok))"

fun parseChain :: "AstNode \<Rightarrow> string list \<Rightarrow> Error + AstNode" where
  "parseChain l [] = Inr l"
| "parseChain l [operator] = Inl (SyntaxError operator)"
| "parseChain l (operator # tok # rest) =
     (if \<not> binaryOperator operator then Inl (SyntaxError operator)
      else (case parseOperand tok of
              Inl e \<Rightarrow> Inl e
            | Inr r \<Rightarrow> parseChain (mkBinary operator l r) rest))"

text \<open>
  Modelled from the spec: \<^verbatim>\<open>makeExpression\<close> of \<^verbatim>\<open>nodestuff\<close> (not under
  src/), which parses an expression text with the external parser and throws on a
  syntax error. The model covers the texts this file builds: operands (identifiers, or
  a call without arguments) separated by one binary operator between single spaces,
  nested to the left as the grammar does for operators of one precedence.
\<close>

definition makeExpression :: "string \<Rightarrow> Error + AstNode" where
  "makeExpression text =
     (case split_on CHR '' '' text of
        [] \<Rightarrow> Inl (SyntaxError text)
      | tok # rest \<Rightarrow>
          (case parseOperand tok of Inl e \<Rightarrow> Inl e | Inr l \<Rightarrow> parseChain l rest))"

definition mkProgram :: "AstNode list \<Rightarrow> AstNode" where
  "mkProgram stmts =
     AstObj [(''type'', AstStr ''program''), (''program'', AstArr stmts), (''scopes'', AstArr [])]"

section \<open>Binary-operation nodes\<close>

definition binaryNode_source :: "string \<Rightarrow> Edge list \<Rightarrow> string" where
  "binaryNode_source operation inputEdges =
     (if length inputEdges \<noteq> 0
      then join ('' '' @ operation @ '' '')
             (map (\<lambda>index. charAt alphabet index) [0 ..< length inputEdges])
      else ''a '' @ operation @ '' b'')"

definition binaryNode_produceAst ::
  "string \<Rightarrow> 'r EngineContext \<Rightarrow> EngineSettings \<Rightarrow> Graph \<Rightarrow> Node \<Rightarrow> Edge list \<Rightarrow> Error + AstNode" where
  "binaryNode_produceAst operation engineContext engine graph node inputEdges =
     (case makeExpression (binaryNode_source operation inputEdges) of
        Inl e \<Rightarrow> Inl e
      | Inr ex \<Rightarrow>
          Inr (mkProgram [ex]))"

text \<open>The identifier nodes named \<open>letter\<close>, in the order the visitor enters them;
  the visitor keeps the last one.\<close>

definition identifiersNamed :: "string \<Rightarrow> AstNode \<Rightarrow> (Path \<times> AstNode) list" where
  "identifiersNamed letter ast =
     filter (\<lambda>(p, n). typeOf n = Some ''identifier'' \<and> getProp ''identifier'' n = Some (AstStr letter))
       (visit (\<lambda>_. False) [] ast)"

definition binaryNode_filler :: "string \<Rightarrow> Filler" where
  "binaryNode_filler letter fillerAst ast =
     (case identifiersNamed letter ast of
        [] \<Rightarrow> Inl (MissingFillerTarget letter)
      | f # fs \<Rightarrow>
          (let foundPath = fst (last (f # fs)) in
           if foundPath \<noteq> [] \<and> fst (last foundPath) \<noteq> []
           then Inr (replace_at foundPath fillerAst ast)
           else Inr fillerAst))"

definition binaryNode_findInputs ::
  "'r EngineContext \<Rightarrow> Node \<Rightarrow> AstNode \<Rightarrow> NodeContext \<Rightarrow> Edge list \<Rightarrow> Error + NodeInputs" where
  "binaryNode_findInputs engineContext node ast nodeContext inputEdges =
     Inr (fold (\<lambda>letter inputs. inputs(letter \<mapsto> binaryNode_filler letter))
            (map (\<lambda>index. charAt alphabet index) [0 ..< max (length inputEdges + 1) 2])
            Map.empty)"

definition binaryNode :: "string \<Rightarrow> 'r NodeParser" where
  "binaryNode operation =
     SingleParser \<lparr> produceAst = binaryNode_produceAst operation,
                    findInputs = binaryNode_findInputs,
                    produceFiller = (\<lambda>node ast. getProp ''program'' ast) \<rparr>"


section \<open>Reading a tree\<close>

text \<open>The nodes of a tree in visiting order, and the strings a kind of node carries
  under a key: the identifiers and the operator literals of an expression.\<close>

definition nodesOf :: "AstNode \<Rightarrow> AstNode list" where
  "nodesOf ast = map snd (visit (\<lambda>_. False) [] ast)"

definition nodeString :: "string \<Rightarrow> string \<Rightarrow> AstNode \<Rightarrow> string list" where
  "nodeString ty key n =
     (if typeOf n = Some ty
      then (case getProp key n of Some (AstStr s) \<Rightarrow> [s] | _ \<Rightarrow> [])
      else [])"

definition stringsOf :: "string \<Rightarrow> string \<Rightarrow> AstNode \<Rightarrow> string list" where
  "stringsOf ty key ast = concat (map (nodeString ty key) (nodesOf ast))"

definition identifiersOf :: "AstNode \<Rightarrow> string list" where
  "identifiersOf ast = stringsOf ''identifier'' ''identifier'' ast"

definition operatorsOf :: "AstNode \<Rightarrow> string list" where
  "operatorsOf ast = stringsOf ''literal'' ''literal'' ast"

text \<open>The first \<open>k\<close> letters of the alphabet, each as a one-letter name.\<close>

definition firstLetters :: "nat \<Rightarrow> string list" where
  "firstLetters k = map (\<lambda>c. [c]) (take k alphabet)"

text \<open>The chain \<open>((x \<circ> y1) \<circ> y2) \<dots>\<close> of identifiers under one operator.\<close>

definition chainOf :: "string \<Rightarrow> string \<Rightarrow> string list \<Rightarrow> AstNode" where
  "chainOf operation x ys =
     foldl (\<lambda>l y. mkBinary operation l (mkIdentifier y)) (mkIdentifier x) ys"

section \<open>External collaborators\<close>

text \<open>
  Modelled from the spec: the categorised declarations a node contributes
  (\<^verbatim>\<open>ShaderSections\<close>, \<^verbatim>\<open>emptyShaderSections\<close> and
  \<^verbatim>\<open>mergeShaderSections\<close> of \<^verbatim>\<open>nodestuff\<close>, not under src/): an
  order-preserving collection per category, merged by appending each category of the
  second argument to that of the first.
\<close>

record ShaderSections =
  sec_preprocessor :: "AstNode list"
  sec_functions :: "AstNode list"
  sec_uniforms :: "AstNode list"
  sec_inOut :: "AstNode list"

definition emptyShaderSections :: ShaderSections where
  "emptyShaderSections =
     \<lparr> sec_preprocessor = [], sec_functions = [], sec_uniforms = [], sec_inOut = [] \<rparr>"


text \<open>
  The functions this file imports from the parsing library and from
  \<^verbatim>\<open>nodestuff\<close> and only calls: the preprocessor, the parser and the code
  generator, the tree rewrites, the scope renamers and the section finder. They are
  parameters of the model. A rewrite that mutates its tree in place returns the new tree;
  \<open>ext_references\<close> stands for the parser's scope index
  \<^verbatim>\<open>ast.scopes[0].bindings[name].references\<close>, giving the reference nodes of a
  binding by their paths in the tree.
\<close>

record Externals =
  ext_preprocess :: "string option \<Rightarrow> Error + string"
  ext_parse :: "string \<Rightarrow> Error + AstNode"
  ext_generate :: "AstNode \<Rightarrow> string"
  ext_from2To3 :: "AstNode \<Rightarrow> ShaderStage \<Rightarrow> AstNode"
  ext_convert300MainToReturn :: "AstNode \<Rightarrow> AstNode"
  ext_returnGlPosition :: "AstNode \<Rightarrow> AstNode"
  ext_returnGlPositionVec3Right :: "AstNode \<Rightarrow> AstNode"
  ext_doesLinkThruShader :: "Graph \<Rightarrow> Node \<Rightarrow> bool"
  ext_renameBindings :: "AstNode \<Rightarrow> (string \<Rightarrow> string) \<Rightarrow> AstNode"
  ext_renameFunctions :: "AstNode \<Rightarrow> (string \<Rightarrow> string) \<Rightarrow> AstNode"
  ext_references :: "AstNode \<Rightarrow> string \<Rightarrow> Path list"
  ext_makeFnStatement :: "string \<Rightarrow> AstNode"
  ext_findShaderSections :: "AstNode \<Rightarrow> ShaderSections"

section \<open>Mangling\<close>

text \<open>The mappers the shader parsers hand to \<^verbatim>\<open>renameBindings\<close> and
  \<^verbatim>\<open>renameFunctions\<close>.\<close>

definition mangleBinding :: "EngineSettings \<Rightarrow> Node \<Rightarrow> string \<Rightarrow> string" where
  "mangleBinding engine node name =
     (if name \<in> engine_preserve engine then name else name @ ''_'' @ node_id node)"

definition mangleFunction :: "Node \<Rightarrow> string \<Rightarrow> string" where
  "mangleFunction node name =
     (if name = ''main'' then nodeName node else name @ ''_'' @ node_id node)"

definition threeToBabylon :: "string \<Rightarrow> string" where
  "threeToBabylon name =
     (if name = ''vUv'' then ''vMainUV1'' else if name = ''vNormal'' then ''vNormalW'' else name)"

definition rewritesVaryings :: "EngineSettings \<Rightarrow> Node \<Rightarrow> bool" where
  "rewritesVaryings engine node =
     (node_originalEngine node = Some ''three'' \<and> engine_name engine = ''babylon'')"






section \<open>Built-in parsers\<close>

text \<open>Setting a property of a JavaScript object: replaced where it exists, added otherwise.\<close>

definition setProp :: "string \<Rightarrow> AstNode \<Rightarrow> AstNode \<Rightarrow> AstNode" where
  "setProp k v n =
     (case n of
        AstObj ps \<Rightarrow>
          if k \<in> fst ` set ps
          then AstObj (map (\<lambda>(k', w). if k' = k then (k', v) else (k', w)) ps)
          else AstObj (ps @ [(k, v)])
      | _ \<Rightarrow> n)"

text \<open>\<open>node.k = v\<close> for the node at a path of the tree.\<close>

definition setPropAt :: "Path \<Rightarrow> string \<Rightarrow> AstNode \<Rightarrow> AstNode \<Rightarrow> AstNode" where
  "setPropAt p k v tree =
     (case subtree p tree of
        Some n \<Rightarrow> replace_at p (setProp k v n) tree
      | None \<Rightarrow> tree)"

text \<open>\<^verbatim>\<open>path.findParent(test)\<close>: the nearest proper ancestor that passes.\<close>

fun findParent :: "(AstNode \<Rightarrow> bool) \<Rightarrow> Path \<Rightarrow> AstNode \<Rightarrow> Path option" where
  "findParent test [] tree = None"
| "findParent test (st # p) tree =
     (case subtree (butlast (st # p)) tree of
        Some n \<Rightarrow> if test n then Some (butlast (st # p)) else findParent test (butlast (st # p)) tree
      | None \<Rightarrow> findParent test (butlast (st # p)) tree)"

definition isVec4Call :: "AstNode \<Rightarrow> bool" where
  "isVec4Call n =
     (typeOf n = Some ''function_call''
      \<and> getPath [''identifier'', ''specifier'', ''token''] n = Some (AstStr ''vec4''))"

text \<open>The visitor of \<^verbatim>\<open>findVec4Constructor\<close> overwrites its result at every
  \<open>vec4\<close> call it enters and skips the call's children: the last call decides.\<close>

definition findVec4Constructor :: "AstNode \<Rightarrow> Path option" where
  "findVec4Constructor ast =
     (case filter (\<lambda>(p, n). isVec4Call n) (visit isVec4Call [] ast) of
        [] \<Rightarrow> None
      | c # cs \<Rightarrow> findParent (\<lambda>n. getProp ''right'' n \<noteq> None) (fst (last (c # cs))) ast)"

definition isExpressionStatement :: "AstNode \<Rightarrow> bool" where
  "isExpressionStatement n = (typeOf n = Some ''expression_statement'')"

definition findAssignmentTo :: "AstNode \<Rightarrow> string \<Rightarrow> Path option" where
  "findAssignmentTo ast assignTo =
     (case filter (\<lambda>(p, n). isExpressionStatement n
                     \<and> getPath [''expression'', ''left'', ''identifier''] n = Some (AstStr assignTo))
             (visit isExpressionStatement [] ast) of
        [] \<Rightarrow> None
      | c # cs \<Rightarrow> Some (fst (last (c # cs))))"

text \<open>\<^verbatim>\<open>Array.prototype.find\<close>, by index.\<close>

fun findIndex :: "('a \<Rightarrow> bool) \<Rightarrow> 'a list \<Rightarrow> nat option" where
  "findIndex P [] = None"
| "findIndex P (x # xs) = (if P x then Some 0 else map_option Suc (findIndex P xs))"

definition parseSource :: "Externals \<Rightarrow> Node \<Rightarrow> Error + AstNode" where
  "parseSource ext node =
     (case ext_preprocess ext (node_source node) of
        Inl e \<Rightarrow> Inl e
      | Inr preprocessed \<Rightarrow> ext_parse ext preprocessed)"

definition output_fragment_findInputs ::
  "'r EngineContext \<Rightarrow> Node \<Rightarrow> AstNode \<Rightarrow> NodeContext \<Rightarrow> Edge list \<Rightarrow> Error + NodeInputs" where
  "output_fragment_findInputs engineContext node ast nodeContext inputEdges =
     (case findVec4Constructor ast of
        None \<Rightarrow> Inl NoAssignNode
      | Some assignNode \<Rightarrow>
          Inr [''color'' \<mapsto> (\<lambda>fillerAst tree. Inr (setPropAt assignNode ''right'' fillerAst tree))])"

text \<open>
  The \<open>mainStmts\<close> filler of the vertex output: the statement made from the generated
  text of the filler is put in front of the statements of the first function of the
  program; without a function, \<^verbatim>\<open>find\<close> gives \<^verbatim>\<open>undefined\<close> and the
  property access throws.
\<close>

definition mainStmts_filler :: "Externals \<Rightarrow> Filler" where
  "mainStmts_filler ext fillerAst tree =
     (case getProp ''program'' tree of
        Some (AstArr stmts) \<Rightarrow>
          (case findIndex (\<lambda>stmt. typeOf stmt = Some ''function'') stmts of
             None \<Rightarrow> Inl (TypeError ''body'')
           | Some i \<Rightarrow>
               (case getPath [''body'', ''statements''] (stmts ! i) of
                  Some (AstArr statements) \<Rightarrow>
                    Inr (replace_at [(''program'', Some i), (''body'', None), (''statements'', None)]
                           (AstArr (ext_makeFnStatement ext (ext_generate ext fillerAst) # statements))
                           tree)
                | _ \<Rightarrow> Inl (TypeError ''statements'')))
      | _ \<Rightarrow> Inl (TypeError ''program''))"

definition position_filler :: "Path \<Rightarrow> Filler" where
  "position_filler assignNode fillerAst tree =
     Inr (setPropAt (assignNode @ [(''expression'', None)]) ''right'' fillerAst tree)"

definition output_vertex_findInputs ::
  "Externals \<Rightarrow> 'r EngineContext \<Rightarrow> Node \<Rightarrow> AstNode \<Rightarrow> NodeContext \<Rightarrow> Edge list \<Rightarrow> Error + NodeInputs" where
  "output_vertex_findInputs ext engineContext node ast nodeContext inputEdges =
     (case findAssignmentTo ast ''gl_Position'' of
        None \<Rightarrow> Inl NoAssignNode
      | Some assignNode \<Rightarrow>
          Inr [''mainStmts'' \<mapsto> mainStmts_filler ext,
               ''position'' \<mapsto> position_filler assignNode])"

text \<open>Decimal digits of an array index, for the key \<^verbatim>\<open>texture2d_${index}\<close>.\<close>

fun showNat :: "nat \<Rightarrow> string" where
  "showNat n = (if n < 10 then [''0123456789'' ! n] else showNat (n div 10) @ [''0123456789'' ! (n mod 10)])"

definition shader_fragment_produceAst ::
  "Externals \<Rightarrow> 'r EngineContext \<Rightarrow> EngineSettings \<Rightarrow> Graph \<Rightarrow> Node \<Rightarrow> Edge list \<Rightarrow> Error + AstNode" where
  "shader_fragment_produceAst ext engineContext engine graph node inputEdges =
     (case parseSource ext node of
        Inl e \<Rightarrow> Inl e
      | Inr parsed \<Rightarrow>
          (let ast3 = ext_from2To3 ext parsed fragment;
               hacked = (if rewritesVaryings engine node
                         then ext_renameBindings ext ast3 threeToBabylon else ast3);
               returned = ext_convert300MainToReturn ext hacked;
               bound = ext_renameBindings ext returned (mangleBinding engine node)
           in Inr (ext_renameFunctions ext bound (mangleFunction node))))"

text \<open>
  The built-in fragment parser records, for each \<^verbatim>\<open>texture2D\<close> call that has a
  key, the call node itself and its key, and its filler assigns the filler tree to that
  key of the recorded node.
\<close>

definition isTexture2DCall :: "AstNode \<Rightarrow> bool" where
  "isTexture2DCall n =
     (typeOf n = Some ''function_call''
      \<and> getPath [''identifier'', ''specifier'', ''identifier''] n = Some (AstStr ''texture2D''))"

definition shader_fragment_findInputs ::
  "'r EngineContext \<Rightarrow> Node \<Rightarrow> AstNode \<Rightarrow> NodeContext \<Rightarrow> Edge list \<Rightarrow> Error + NodeInputs" where
  "shader_fragment_findInputs engineContext node ast nodeContext inputEdges =
     (let texture2Dcalls =
            filter (\<lambda>(p, n). isTexture2DCall n \<and> p \<noteq> [] \<and> fst (last p) \<noteq> [])
              (visit (\<lambda>_. False) [] ast)
      in Inr (fold (\<lambda>(index, (p, n)) inputs.
                      inputs(''texture2d_'' @ showNat index \<mapsto>
                        (\<lambda>fillerAst tree. Inr (setPropAt p (fst (last p)) fillerAst tree))))
                (zip [0 ..< length texture2Dcalls] texture2Dcalls) Map.empty))"

definition shader_produceFiller :: "Node \<Rightarrow> AstNode \<Rightarrow> AstNode option" where
  "shader_produceFiller node ast =
     (case makeExpression (nodeName node @ ''()'') of Inr ex \<Rightarrow> Some ex | Inl e \<Rightarrow> None)"

definition shader_vertex_produceAst ::
  "Externals \<Rightarrow> 'r EngineContext \<Rightarrow> EngineSettings \<Rightarrow> Graph \<Rightarrow> Node \<Rightarrow> Edge list \<Rightarrow> Error + AstNode" where
  "shader_vertex_produceAst ext engineContext engine graph node inputEdges =
     (if node_source node = None \<or> node_source node = Some []
      then Inr (AstObj [(''type'', AstStr ''empty'')])
      else (case parseSource ext node of
              Inl e \<Rightarrow> Inl e
            | Inr parsed \<Rightarrow>
                (let ast3 = ext_from2To3 ext parsed vertex;
                     returned = (if ext_doesLinkThruShader ext graph node
                                 then ext_returnGlPositionVec3Right ext ast3
                                 else ext_returnGlPosition ext ast3);
                     bound = ext_renameBindings ext returned (mangleBinding engine node)
                 in Inr (ext_renameFunctions ext bound (mangleFunction node)))))"

text \<open>The \<open>position\<close> filler of a vertex shader node rewrites the references of the
  binding \<open>position\<close> that still carry that name.\<close>

definition renameReference :: "string \<Rightarrow> string \<Rightarrow> Path \<Rightarrow> AstNode \<Rightarrow> AstNode" where
  "renameReference name text p tree =
     (case subtree p tree of
        None \<Rightarrow> tree
      | Some ref \<Rightarrow>
          if typeOf ref = Some ''identifier'' \<and> getProp ''identifier'' ref = Some (AstStr name)
          then setPropAt p ''identifier'' (AstStr text) tree
          else if typeOf ref = Some ''parameter_declaration''
                  \<and> getPath [''declaration'', ''identifier'', ''identifier''] ref = Some (AstStr name)
          then setPropAt (p @ [(''declaration'', None), (''identifier'', None)]) ''identifier''
                 (AstStr text) tree
          else tree)"

definition shader_vertex_findInputs ::
  "Externals \<Rightarrow> 'r EngineContext \<Rightarrow> Node \<Rightarrow> AstNode \<Rightarrow> NodeContext \<Rightarrow> Edge list \<Rightarrow> Error + NodeInputs" where
  "shader_vertex_findInputs ext engineContext node ast nodeContext inputEdges =
     Inr [''position'' \<mapsto>
            (\<lambda>fillerAst tree.
               Inr (fold (renameReference ''position'' (ext_generate ext fillerAst))
                      (ext_references ext tree ''position'') tree))]"

text \<open>The table \<^verbatim>\<open>parsers\<close>.\<close>

definition parsers :: "Externals \<Rightarrow> ShaderType \<Rightarrow> 'r NodeParser option" where
  "parsers ext ty =
     (case ty of
        output_type \<Rightarrow>
          Some (ProgramParser None
            \<lparr> produceAst = (\<lambda>engineContext engine graph node inputEdges. parseSource ext node),
              findInputs = output_fragment_findInputs,
              produceFiller = (\<lambda>node ast. None) \<rparr>
            \<lparr> produceAst = (\<lambda>engineContext engine graph node inputEdges. parseSource ext node),
              findInputs = output_vertex_findInputs ext,
              produceFiller = (\<lambda>node ast. None) \<rparr>)
      | shader_type \<Rightarrow>
          Some (ProgramParser None
            \<lparr> produceAst = shader_fragment_produceAst ext,
              findInputs = shader_fragment_findInputs,
              produceFiller = shader_produceFiller \<rparr>
            \<lparr> produceAst = shader_vertex_produceAst ext,
              findInputs = shader_vertex_findInputs ext,
              produceFiller = shader_produceFiller \<rparr>)
      | add_type \<Rightarrow> Some (binaryNode ''+'')
      | multiply_type \<Rightarrow> Some (binaryNode ''*'')
      | OtherType t \<Rightarrow> None)"

section \<open>Traversal and compilation\<close>

text \<open>
  \<^verbatim>\<open>NodeIds = Record<string, Node>\<close>: an object used as a dictionary. It is kept as
  the list of its entries in creation order, because \<^verbatim>\<open>Object.values\<close> reads
  that order. Writing a key replaces the entry in place or adds it at the end; the
  spread \<^verbatim>\<open>{...a, ...b}\<close> writes the entries of \<open>b\<close> into a copy of \<open>a\<close>.
\<close>

type_synonym NodeIds = "(string \<times> Node) list"

fun putId :: "string \<Rightarrow> Node \<Rightarrow> NodeIds \<Rightarrow> NodeIds" where
  "putId k v [] = [(k, v)]"
| "putId k v (p # ps) = (if fst p = k then (k, v) # ps else p # putId k v ps)"

definition spread :: "NodeIds \<Rightarrow> NodeIds \<Rightarrow> NodeIds" where
  "spread a b = fold (\<lambda>(k, v) acc. putId k v acc) b a"




text \<open>\<^verbatim>\<open>forEach\<close> with a body that may throw: the first error ends the loop.\<close>

fun forEachE :: "('a \<Rightarrow> 's \<Rightarrow> Error + 's) \<Rightarrow> 'a list \<Rightarrow> 's \<Rightarrow> Error + 's" where
  "forEachE f [] s = Inr s"
| "forEachE f (x # xs) s = (case f x s of Inl e \<Rightarrow> Inl e | Inr s' \<Rightarrow> forEachE f xs s')"

definition findNode :: "Graph \<Rightarrow> string \<Rightarrow> Node option" where
  "findNode graph i = find (\<lambda>node. i = node_id node) (graph_nodes graph)"

text \<open>
  \<^verbatim>\<open>collectConnectedNodes\<close>. The recursion follows the edges into a node back to
  their sources; the fuel bounds its depth, and a recursion deeper than the fuel (on a
  cyclic graph: any fuel) is \<open>OutOfFuel\<close>. Every child is given the caller's \<open>ids\<close>.
\<close>

fun collectConnectedNodes :: "nat \<Rightarrow> Graph \<Rightarrow> Edge list \<Rightarrow> Node \<Rightarrow> NodeIds \<Rightarrow> Error + NodeIds" where
  "collectConnectedNodes 0 graph edges node ids = Inl OutOfFuel"
| "collectConnectedNodes (Suc fuel) graph edges node ids =
     (case forEachE
             (\<lambda>edge compiledIds.
                case findNode graph (edge_from edge) of
                  None \<Rightarrow> Inl (DanglingEdge (edge_from edge))
                | Some fromNode \<Rightarrow>
                    (case collectConnectedNodes fuel graph edges fromNode ids of
                       Inl e \<Rightarrow> Inl e
                     | Inr childIds \<Rightarrow> Inr (spread compiledIds childIds)))
             (filter (\<lambda>edge. edge_to edge = node_id node) edges) ids of
        Inl e \<Rightarrow> Inl e
      | Inr compiledIds \<Rightarrow> Inr (putId (node_id node) node compiledIds))"

text \<open>The ids of the nodes on which the recursion above is entered, in the order of
  the calls: the same recursion, returning its own call sequence.\<close>

fun collectCalls :: "nat \<Rightarrow> Graph \<Rightarrow> Edge list \<Rightarrow> Node \<Rightarrow> Error + string list" where
  "collectCalls 0 graph edges node = Inl OutOfFuel"
| "collectCalls (Suc fuel) graph edges node =
     (case forEachE
             (\<lambda>edge calls.
                case findNode graph (edge_from edge) of
                  None \<Rightarrow> Inl (DanglingEdge (edge_from edge))
                | Some fromNode \<Rightarrow>
                    (case collectCalls fuel graph edges fromNode of
                       Inl e \<Rightarrow> Inl e
                     | Inr childCalls \<Rightarrow> Inr (calls @ childCalls)))
             (filter (\<lambda>edge. edge_to edge = node_id node) edges) [node_id node] of
        Inl e \<Rightarrow> Inl e
      | Inr calls \<Rightarrow> Inr calls)"

text \<open>The nodes reachable backward from a node: itself, and the source of every edge
  into a reachable node.\<close>

inductive reachable :: "Graph \<Rightarrow> Edge list \<Rightarrow> Node \<Rightarrow> Node \<Rightarrow> bool"
  for graph :: Graph and edges :: "Edge list" and start :: Node where
  start: "reachable graph edges start start"
| step: "reachable graph edges start node \<Longrightarrow> edge \<in> set edges
         \<Longrightarrow> edge_to edge = node_id node
         \<Longrightarrow> findNode graph (edge_from edge) = Some fromNode
         \<Longrightarrow> reachable graph edges start fromNode"

definition lookupParser :: "Externals \<Rightarrow> 'r Engine \<Rightarrow> ShaderType \<Rightarrow> 'r NodeParser option" where
  "lookupParser ext engine ty =
     (case engine_parsers engine ty of Some parser \<Rightarrow> Some parser | None \<Rightarrow> parsers ext ty)"







section \<open>Building the contexts\<close>

definition computeNodeContext ::
  "'r EngineContext \<Rightarrow> 'r Engine \<Rightarrow> Graph \<Rightarrow> 'r NodeParser \<Rightarrow> Node \<Rightarrow> ShaderStage option
     \<Rightarrow> Error + ('r EngineContext \<times> NodeContext)" where
  "computeNodeContext engineContext engine graph parser node stage =
     (let hooked = (case onBeforeCompile parser of
                      Some hook \<Rightarrow> hook engineContext node
                    | None \<Rightarrow> engineContext);
          inputEdges = filter (\<lambda>edge. edge_to edge = node_id node) (graph_edges graph)
      in (case stageParser stage parser of
            None \<Rightarrow> Inl (TypeError ''produceAst'')
          | Some shaderParser \<Rightarrow>
          (case produceAst shaderParser hooked (EngineSettings.truncate engine) graph node inputEdges of
             Inl e \<Rightarrow> Inl e
           | Inr ast \<Rightarrow>
               (let nodeContext = \<lparr> nc_ast = ast, nc_source = None, nc_inputs = None,
                                    nc_id = Some (node_id node), nc_name = Some (node_name node) \<rparr>
                in (case findInputs shaderParser hooked node ast nodeContext inputEdges of
                      Inl e \<Rightarrow> Inl e
                    | Inr inputs \<Rightarrow> Inr (hooked, nodeContext\<lparr> nc_inputs := Some inputs \<rparr>))))))"

text \<open>\<^verbatim>\<open>{...(context[node.id] || {}), ...nodeContext}\<close>: the new context has the
  keys \<open>ast\<close>, \<open>id\<close>, \<open>name\<close> and \<open>inputs\<close>; only \<open>source\<close> can survive from an older entry.\<close>

definition computeSideContext ::
  "Externals \<Rightarrow> 'r EngineContext \<Rightarrow> 'r Engine \<Rightarrow> Graph \<Rightarrow> Node list \<Rightarrow> Error + 'r EngineContext" where
  "computeSideContext ext engineContext engine graph nodes =
     forEachE
       (\<lambda>node context.
          case lookupParser ext engine (node_type node) of
            None \<Rightarrow> Inl (MissingParser (node_type node))
          | Some parser \<Rightarrow>
              (case computeNodeContext context engine graph parser node (node_stage node) of
                 Inl e \<Rightarrow> Inl e
               | Inr (context', nodeContext) \<Rightarrow>
                   Inr (context'\<lparr> ctx_nodes := (ctx_nodes context')(node_id node \<mapsto>
                          nodeContext\<lparr> nc_source :=
                            (case ctx_nodes context' (node_id node) of
                               Some old \<Rightarrow> nc_source old | None \<Rightarrow> None) \<rparr>) \<rparr>)))
       nodes engineContext"

definition computeAllContexts ::
  "Externals \<Rightarrow> 'r EngineContext \<Rightarrow> 'r Engine \<Rightarrow> Graph \<Rightarrow> Error + 'r EngineContext" where
  "computeAllContexts ext engineContext engine graph =
     computeSideContext ext engineContext engine graph (graph_nodes graph)"




section \<open>Compiling a graph\<close>




section \<open>Reachability and what a traversal collects\<close>

text \<open>The nodes reached through the sources of a list of edges; a start node no
  reachable node of which has an edge from a missing node; and a dictionary that
  extends \<open>ids\<close> by the nodes of a set, each under its id.\<close>

definition sourcesReach :: "Graph \<Rightarrow> Edge list \<Rightarrow> Edge list \<Rightarrow> Node set" where
  "sourcesReach graph edges ys =
     {k. \<exists>e \<in> set ys. \<exists>m. findNode graph (edge_from e) = Some m \<and> reachable graph edges m k}"

definition noDangling :: "Graph \<Rightarrow> Edge list \<Rightarrow> Node \<Rightarrow> bool" where
  "noDangling graph edges n =
     (\<forall>k. reachable graph edges n k \<longrightarrow>
        (\<forall>e \<in> set edges. edge_to e = node_id k \<longrightarrow> findNode graph (edge_from e) \<noteq> None))"

definition collected :: "Graph \<Rightarrow> Edge list \<Rightarrow> NodeIds \<Rightarrow> Node set \<Rightarrow> NodeIds \<Rightarrow> bool" where
  "collected graph edges ids S result =
     (fst ` set result = fst ` set ids \<union> node_id ` S
      \<and> (\<forall>i v. (i, v) \<in> set result \<longrightarrow> (i, v) \<in> set ids \<or> (v \<in> S \<and> node_id v = i)))"

section \<open>Input strategies\<close>

text \<open>
  The strategy runners of the second source file, for the Uniform and the Texture2D
  strategy. A computed input is a descriptor with the filler of its slot.
\<close>

record NodeInput =
  input_name :: string
  input_id :: string
  input_category :: string
  input_bakeable :: bool

type_synonym ComputedInput = "NodeInput \<times> Filler"

fun mapE :: "('a \<Rightarrow> Error + 'b) \<Rightarrow> 'a list \<Rightarrow> Error + 'b list" where
  "mapE f [] = Inr []"
| "mapE f (x # xs) =
     (case f x of
        Inl e \<Rightarrow> Inl e
      | Inr y \<Rightarrow> (case mapE f xs of Inl e \<Rightarrow> Inl e | Inr ys \<Rightarrow> Inr (y # ys)))"

subsection \<open>Uniform\<close>

definition uniformType :: "AstNode \<Rightarrow> AstNode option" where
  "uniformType node =
     getPath [''declaration'', ''specified_type'', ''specifier'', ''specifier'', ''token''] node"

definition hasUniformQualifier :: "AstNode \<Rightarrow> bool" where
  "hasUniformQualifier node =
     (case getPath [''declaration'', ''specified_type'', ''qualifiers''] node of
        Some (AstArr qualifiers) \<Rightarrow> list_ex (\<lambda>n. getProp ''token'' n = Some (AstStr ''uniform'')) qualifiers
      | _ \<Rightarrow> False)"

text \<open>The condition under which a top-level statement yields inputs.\<close>

definition isUniformDeclaration :: "AstNode \<Rightarrow> bool" where
  "isUniformDeclaration node =
     (typeOf node = Some ''declaration_statement'' \<and> hasUniformQualifier node
      \<and> uniformType node \<noteq> Some (AstStr ''sampler2D''))"

definition declaredNames :: "AstNode \<Rightarrow> Error + string list" where
  "declaredNames node =
     (case getPath [''declaration'', ''declarations''] node of
        Some (AstArr declarations) \<Rightarrow>
          mapE (\<lambda>d. case getPath [''identifier'', ''identifier''] d of
                       Some (AstStr name) \<Rightarrow> Inr name
                     | _ \<Rightarrow> Inl (TypeError ''identifier'')) declarations
      | _ \<Rightarrow> Inl (TypeError ''declarations''))"

text \<open>
  The filler of a uniform input. The declaration statement is found again by its
  position at discovery; with one declared name the statement is removed from the
  program, otherwise the declarations of the mangled name are filtered out. Then the
  references of the binding are renamed to the generated text of the filler.
  \<open>mangleName\<close> is imported by the strategies from a module that is not under src/
  and is a parameter.
\<close>

definition removeAt :: "nat \<Rightarrow> 'a list \<Rightarrow> 'a list" where
  "removeAt i xs = take i xs @ drop (Suc i) xs"

definition removeStatement :: "nat \<Rightarrow> AstNode \<Rightarrow> AstNode" where
  "removeStatement i tree =
     (case getProp ''program'' tree of
        Some (AstArr stmts) \<Rightarrow> setProp ''program'' (AstArr (removeAt i stmts)) tree
      | _ \<Rightarrow> tree)"

definition filterDeclarations :: "nat \<Rightarrow> string \<Rightarrow> AstNode \<Rightarrow> AstNode" where
  "filterDeclarations i mangledName tree =
     (case subtree [(''program'', Some i), (''declaration'', None), (''declarations'', None)] tree of
        Some (AstArr declarations) \<Rightarrow>
          replace_at [(''program'', Some i), (''declaration'', None), (''declarations'', None)]
            (AstArr (filter (\<lambda>d. getPath [''identifier'', ''identifier''] d \<noteq> Some (AstStr mangledName))
                       declarations))
            tree
      | _ \<Rightarrow> tree)"

definition renameUniformReference :: "string \<Rightarrow> string \<Rightarrow> Path \<Rightarrow> AstNode \<Rightarrow> AstNode" where
  "renameUniformReference mangledName text p tree =
     (case subtree p tree of
        None \<Rightarrow> tree
      | Some ref \<Rightarrow>
          if typeOf ref = Some ''identifier'' \<and> getProp ''identifier'' ref = Some (AstStr mangledName)
          then setPropAt p ''identifier'' (AstStr text) tree
          else if typeOf ref = Some ''parameter_declaration''
                  \<and> getPath [''declaration'', ''identifier'', ''identifier''] ref = Some (AstStr mangledName)
          then setPropAt (p @ [(''declaration'', None), (''identifier'', None)]) ''identifier''
                 (AstStr text) tree
          else if getProp ''identifier'' ref \<noteq> None \<and> getProp ''identifier'' ref \<noteq> Some (AstStr [])
          then setPropAt p ''identifier'' (AstStr text) tree
          else tree)"

definition uniform_filler ::
  "Externals \<Rightarrow> (string \<Rightarrow> Node \<Rightarrow> string) \<Rightarrow> Node \<Rightarrow> nat \<Rightarrow> nat \<Rightarrow> string \<Rightarrow> Filler" where
  "uniform_filler ext mangleName graphNode i declared name fillerAst tree =
     (let mangledName = mangleName name graphNode;
          removed = (if declared = 1 then removeStatement i tree
                     else filterDeclarations i mangledName tree)
      in Inr (fold (renameUniformReference mangledName (ext_generate ext fillerAst))
                (ext_references ext removed name) removed))"

definition uniformInput :: "string \<Rightarrow> NodeInput" where
  "uniformInput name =
     \<lparr> input_name = name, input_id = name, input_category = ''data'', input_bakeable = True \<rparr>"

definition strategy_UNIFORM ::
  "Externals \<Rightarrow> (string \<Rightarrow> Node \<Rightarrow> string) \<Rightarrow> Node \<Rightarrow> AstNode \<Rightarrow> Error + ComputedInput list" where
  "strategy_UNIFORM ext mangleName graphNode ast =
     (case getProp ''program'' ast of
        Some (AstArr stmts) \<Rightarrow>
          (case mapE (\<lambda>(i, node).
                   if isUniformDeclaration node
                   then (case declaredNames node of
                           Inl e \<Rightarrow> Inl e
                         | Inr names \<Rightarrow>
                             Inr (map (\<lambda>name. (uniformInput name,
                                                 uniform_filler ext mangleName graphNode i (length names) name))
                                    names))
                   else Inr [])
                 (zip [0 ..< length stmts] stmts) of
             Inl e \<Rightarrow> Inl e
           | Inr inputs \<Rightarrow> Inr (concat inputs))
      | _ \<Rightarrow> Inl (TypeError ''program''))"

subsection \<open>Texture2D\<close>

definition isTextureCall :: "AstNode \<Rightarrow> bool" where
  "isTextureCall n =
     (typeOf n = Some ''function_call''
      \<and> (getPath [''identifier'', ''specifier'', ''identifier''] n = Some (AstStr ''texture2D'')
         \<or> getPath [''identifier'', ''specifier'', ''identifier''] n = Some (AstStr ''texture'')))"

text \<open>\<^verbatim>\<open>generate(path.node.args[0])\<close>; the generator prints nothing for the
  \<^verbatim>\<open>undefined\<close> of an empty argument list.\<close>

definition firstArgumentText :: "Externals \<Rightarrow> AstNode \<Rightarrow> Error + string" where
  "firstArgumentText ext n =
     (case getProp ''args'' n of
        Some (AstArr []) \<Rightarrow> Inr []
      | Some (AstArr (a # as)) \<Rightarrow> Inr (ext_generate ext a)
      | _ \<Rightarrow> Inl (TypeError ''args''))"

text \<open>The texture-sample calls that sit in a slot, in visiting order, each with the
  text of its first argument and its path.\<close>

definition textureCallNodes :: "AstNode \<Rightarrow> (Path \<times> AstNode) list" where
  "textureCallNodes ast =
     filter (\<lambda>(p, n). isTextureCall n \<and> p \<noteq> [] \<and> fst (last p) \<noteq> []) (visit (\<lambda>_. False) [] ast)"

definition texture2Dcalls :: "Externals \<Rightarrow> AstNode \<Rightarrow> Error + (string \<times> Path) list" where
  "texture2Dcalls ext ast =
     mapE (\<lambda>(p, n). case firstArgumentText ext n of Inl e \<Rightarrow> Inl e | Inr name \<Rightarrow> Inr (name, p))
       (textureCallNodes ast)"







text \<open>The sampler types of GLSL, as the specification speaks of them.\<close>

definition isSamplerType :: "string \<Rightarrow> bool" where
  "isSamplerType token = (take 7 token = ''sampler'' \<or> take 7 (drop 1 token) = ''sampler'')"

definition descriptors :: "Error + ComputedInput list \<Rightarrow> Error + NodeInput list" where
  "descriptors r = (case r of Inl e \<Rightarrow> Inl e | Inr inputs \<Rightarrow> Inr (map fst inputs))"

text \<open>The inputs a top-level statement stands for: one per declared name of a uniform
  declaration whose type is not \<open>sampler2D\<close>, none otherwise.\<close>

definition uniformInputsOf :: "AstNode \<Rightarrow> NodeInput list" where
  "uniformInputsOf node =
     (if typeOf node = Some ''declaration_statement'' \<and> hasUniformQualifier node
         \<and> uniformType node \<noteq> Some (AstStr ''sampler2D'')
      then (case declaredNames node of Inr names \<Rightarrow> map uniformInput names | Inl e \<Rightarrow> [])
      else [])"


subsection \<open>Orphan vertex nodes and the statements slot\<close>




section \<open>Values used by the examples\<close>

definition edge0 :: Edge where
  "edge0 = \<lparr> edge_from = ''1'', edge_to = ''2'', edge_output = ''out'', edge_input = ''a'',
             edge_stage = Some fragment \<rparr>"

definition node0 :: Node where
  "node0 = \<lparr> node_id = ''2'', node_name = ''Add'', node_type = add_type,
             node_stage = Some fragment, node_source = None, node_expressionOnly = True,
             node_nextStageNodeId = None, node_originalEngine = None \<rparr>"

definition settings0 :: EngineSettings where
  "settings0 = \<lparr> engine_name = ''three'', engine_preserve = {''gl_Position'', ''vUv''} \<rparr>"

definition graph0 :: Graph where
  "graph0 = \<lparr> graph_nodes = [node0], graph_edges = [] \<rparr>"

definition ctx0 :: "unit EngineContext" where
  "ctx0 = \<lparr> ctx_engine = ''three'', ctx_compileCount = 0, ctx_nodes = Map.empty,
            ctx_runtime = (),
            ctx_debuggingNonsense = \<lparr> dbg_vertexSource = None, dbg_vertexPreprocessed = None,
              dbg_fragmentPreprocessed = None, dbg_fragmentSource = None \<rparr> \<rparr>"

definition nc0 :: NodeContext where
  "nc0 = \<lparr> nc_ast = mkProgram [], nc_source = None, nc_inputs = None, nc_id = Some ''2'',
           nc_name = Some ''Add'' \<rparr>"

definition mkNode :: "string \<Rightarrow> string \<Rightarrow> ShaderType \<Rightarrow> ShaderStage \<Rightarrow> Node" where
  "mkNode i nm ty st =
     \<lparr> node_id = i, node_name = nm, node_type = ty, node_stage = Some st, node_source = None,
       node_expressionOnly = False, node_nextStageNodeId = None, node_originalEngine = None \<rparr>"

definition mkEdge :: "string \<Rightarrow> string \<Rightarrow> string \<Rightarrow> ShaderStage \<Rightarrow> Edge" where
  "mkEdge f t inp st =
     \<lparr> edge_from = f, edge_to = t, edge_output = ''out'', edge_input = inp, edge_stage = Some st \<rparr>"

text \<open>A diamond: \<open>d\<close> feeds \<open>b\<close> and \<open>c\<close>, which both feed the output.\<close>

definition dOut :: Node where "dOut = mkNode ''out'' ''Output'' output_type fragment"

definition dB :: Node where "dB = mkNode ''b'' ''B'' add_type fragment"

definition dC :: Node where "dC = mkNode ''c'' ''C'' add_type fragment"

definition dD :: Node where "dD = mkNode ''d'' ''D'' add_type fragment"

definition diamondEdges :: "Edge list" where
  "diamondEdges = [mkEdge ''b'' ''out'' ''color'' fragment, mkEdge ''c'' ''out'' ''color'' fragment,
                   mkEdge ''d'' ''b'' ''a'' fragment, mkEdge ''d'' ''c'' ''a'' fragment]"

definition diamond :: Graph where
  "diamond = \<lparr> graph_nodes = [dOut, dB, dC, dD], graph_edges = diamondEdges \<rparr>"

definition diamondRank :: "string \<Rightarrow> nat" where
  "diamondRank i = (if i = ''out'' then 2 else if i = ''d'' then 0 else 1)"

text \<open>Trees as the parser builds them for the sources of the examples.\<close>

definition mkKeyword :: "string \<Rightarrow> AstNode" where
  "mkKeyword s = AstObj [(''type'', AstStr ''keyword''), (''token'', AstStr s)]"

definition mkFloat :: "string \<Rightarrow> AstNode" where
  "mkFloat s = AstObj [(''type'', AstStr ''float_constant''), (''token'', AstStr s)]"

definition mkConstructor :: "string \<Rightarrow> AstNode list \<Rightarrow> AstNode" where
  "mkConstructor ty args =
     AstObj [(''type'', AstStr ''function_call''),
             (''identifier'', AstObj [(''type'', AstStr ''type_specifier''),
                                      (''specifier'', mkKeyword ty)]),
             (''lp'', mkLiteral ''(''), (''args'', AstArr args), (''rp'', mkLiteral '')'')]"

definition mkAssign :: "string \<Rightarrow> AstNode \<Rightarrow> AstNode" where
  "mkAssign lhs rhs =
     AstObj [(''type'', AstStr ''expression_statement''),
             (''expression'', AstObj [(''type'', AstStr ''assignment''),
                                      (''left'', mkIdentifier lhs),
                                      (''operator'', mkLiteral ''=''),
                                      (''right'', rhs)]),
             (''semi'', mkLiteral '';'')]"

definition mkFunction :: "string \<Rightarrow> AstNode list \<Rightarrow> AstNode" where
  "mkFunction f stmts =
     AstObj [(''type'', AstStr ''function''),
             (''prototype'', AstObj [(''type'', AstStr ''function_prototype''),
                (''header'', AstObj [(''type'', AstStr ''function_header''),
                                     (''returnType'', mkKeyword ''void''),
                                     (''name'', mkIdentifier f)])]),
             (''body'', AstObj [(''type'', AstStr ''compound_statement''),
                                (''statements'', AstArr stmts)])]"

definition vertexOutputSource :: string where
  "vertexOutputSource = ''void main() { gl_Position = vec4(position, 1.0); }''"

definition vertexOutputAst :: AstNode where
  "vertexOutputAst =
     mkProgram [mkFunction ''main''
       [mkAssign ''gl_Position'' (mkConstructor ''vec4'' [mkIdentifier ''position'', mkFloat ''1.0''])]]"

definition fragmentOutputSource :: string where
  "fragmentOutputSource = ''void main() { gl_FragColor = vec4(1.0); }''"

definition fragmentOutputAst :: AstNode where
  "fragmentOutputAst =
     mkProgram [mkFunction ''main'' [mkAssign ''gl_FragColor'' (mkConstructor ''vec4'' [mkFloat ''1.0''])]]"

definition shaderFragmentSource :: string where
  "shaderFragmentSource = ''void main() { gl_FragColor = vec4(vUv, 0.0, 1.0); }''"

definition shaderFragmentAst :: AstNode where
  "shaderFragmentAst =
     mkProgram [mkFunction ''main''
       [mkAssign ''gl_FragColor''
          (mkConstructor ''vec4'' [mkIdentifier ''vUv'', mkFloat ''0.0'', mkFloat ''1.0''])]]"

definition shaderVertexSource :: string where
  "shaderVertexSource = ''void main() { vUv = uv; }''"

definition shaderVertexAst :: AstNode where
  "shaderVertexAst = mkProgram [mkFunction ''main'' [mkAssign ''vUv'' (mkIdentifier ''uv'')]]"

text \<open>
  Stand-ins for the external collaborators on these sources: the parser is the table
  of the trees above, the generator prints identifiers and calls without arguments,
  \<^verbatim>\<open>renameFunctions\<close> renames the functions of the program, the section finder
  gathers them, statements are made from expression text, and the remaining rewrites
  leave the tree as it is.
\<close>

definition generate0 :: "AstNode \<Rightarrow> string" where
  "generate0 n =
     (if typeOf n = Some ''identifier''
      then (case getProp ''identifier'' n of Some (AstStr s) \<Rightarrow> s | _ \<Rightarrow> [])
      else if typeOf n = Some ''function_call''
      then (case getPath [''identifier'', ''specifier'', ''identifier''] n of
              Some (AstStr s) \<Rightarrow> s @ ''()'' | _ \<Rightarrow> [])
      else [])"

definition renameFunctions0 :: "AstNode \<Rightarrow> (string \<Rightarrow> string) \<Rightarrow> AstNode" where
  "renameFunctions0 ast mangle =
     (case getProp ''program'' ast of
        Some (AstArr stmts) \<Rightarrow>
          setProp ''program''
            (AstArr (map (\<lambda>stmt.
               case getPath [''prototype'', ''header'', ''name'', ''identifier''] stmt of
                 Some (AstStr f) \<Rightarrow>
                   replace_at [(''prototype'', None), (''header'', None), (''name'', None)]
                     (mkIdentifier (mangle f)) stmt
               | _ \<Rightarrow> stmt) stmts)) ast
      | _ \<Rightarrow> ast)"

definition functionsOf :: "AstNode \<Rightarrow> AstNode list" where
  "functionsOf ast =
     (case getProp ''program'' ast of
        Some (AstArr stmts) \<Rightarrow> filter (\<lambda>stmt. typeOf stmt = Some ''function'') stmts
      | _ \<Rightarrow> [])"

definition makeFnStatement0 :: "string \<Rightarrow> AstNode" where
  "makeFnStatement0 text =
     AstObj [(''type'', AstStr ''expression_statement''),
             (''expression'', (case makeExpression text of Inr ex \<Rightarrow> ex | Inl e \<Rightarrow> AstStr text)),
             (''semi'', mkLiteral '';'')]"

definition ext0 :: Externals where
  "ext0 =
     \<lparr> ext_preprocess = (\<lambda>source. case source of None \<Rightarrow> Inl (TypeError ''source'') | Some t \<Rightarrow> Inr t),
       ext_parse = (\<lambda>t. if t = vertexOutputSource then Inr vertexOutputAst
                         else if t = fragmentOutputSource then Inr fragmentOutputAst
                         else if t = shaderFragmentSource then Inr shaderFragmentAst
                         else if t = shaderVertexSource then Inr shaderVertexAst
                         else Inl (SyntaxError t)),
       ext_generate = generate0,
       ext_from2To3 = (\<lambda>ast stage. ast),
       ext_convert300MainToReturn = (\<lambda>ast. ast),
       ext_returnGlPosition = (\<lambda>ast. ast),
       ext_returnGlPositionVec3Right = (\<lambda>ast. ast),
       ext_doesLinkThruShader = (\<lambda>graph node. False),
       ext_renameBindings = (\<lambda>ast mangle. ast),
       ext_renameFunctions = renameFunctions0,
       ext_references = (\<lambda>ast name. []),
       ext_makeFnStatement = makeFnStatement0,
       ext_findShaderSections = (\<lambda>ast. emptyShaderSections\<lparr> sec_functions := functionsOf ast \<rparr>) \<rparr>"




definition shaderF :: Node where
  "shaderF = (mkNode ''3'' ''Noise'' shader_type fragment)\<lparr> node_source := Some shaderFragmentSource \<rparr>"









definition mkUniformDeclaration :: "string list \<Rightarrow> string \<Rightarrow> string list \<Rightarrow> AstNode" where
  "mkUniformDeclaration qualifiers ty names =
     AstObj [(''type'', AstStr ''declaration_statement''),
             (''declaration'', AstObj [(''type'', AstStr ''declarator_list''),
                (''specified_type'', AstObj [(''type'', AstStr ''fully_specified_type''),
                   (''qualifiers'', AstArr (map mkKeyword qualifiers)),
                   (''specifier'', AstObj [(''type'', AstStr ''type_specifier''),
                                           (''specifier'', mkKeyword ty)])]),
                (''declarations'',
                   AstArr (map (\<lambda>n. AstObj [(''type'', AstStr ''declaration''),
                                              (''identifier'', mkIdentifier n)]) names))]),
             (''semi'', mkLiteral '';'')]"

text \<open>\<^verbatim>\<open>uniform vec4 color; uniform sampler2D tex; uniform float a, b; varying vec2 vUv;\<close>\<close>

definition uniformsAst :: AstNode where
  "uniformsAst =
     mkProgram [mkUniformDeclaration [''uniform''] ''vec4'' [''color''],
                mkUniformDeclaration [''uniform''] ''sampler2D'' [''tex''],
                mkUniformDeclaration [''uniform''] ''float'' [''a'', ''b''],
                mkUniformDeclaration [''varying''] ''vec2'' [''vUv'']]"

text \<open>\<^verbatim>\<open>uniform samplerCube env;\<close>\<close>

definition cubeAst :: AstNode where
  "cubeAst = mkProgram [mkUniformDeclaration [''uniform''] ''samplerCube'' [''env'']]"

definition mangleName0 :: "string \<Rightarrow> Node \<Rightarrow> string" where
  "mangleName0 name node = name @ ''_'' @ node_id node"






section \<open>Trees of binary-operation nodes\<close>

lemma visit_nodes_path:
  "\<forall>q. map snd (visit skip p t) = map snd (visit skip q t)"
  "\<forall>q. map snd (visit_props skip p ps) = map snd (visit_props skip q ps)"
  "\<forall>q j. map snd (visit_elems skip p k i xs) = map snd (visit_elems skip q k j xs)"
proof (induction skip p t and skip p ps and skip p k i xs rule: visit_visit_props_visit_elems.induct)
  case (1 skip p ps)
  show ?case
  proof (intro allI)
    fix q
    have a: "\<not> skip (AstObj ps) \<Longrightarrow> map snd (visit_props skip p ps) = map snd (visit_props skip q ps)"
      using 1 by blast
    show "map snd (visit skip p (AstObj ps)) = map snd (visit skip q (AstObj ps))"
      using a by (cases "skip (AstObj ps)") simp_all
  qed
next
  case (7 skip p k s ps)
  show ?case
  proof (intro allI)
    fix q
    have a: "map snd (visit_props skip p ps) = map snd (visit_props skip q ps)"
      using 7 by blast
    show "map snd (visit_props skip p ((k, AstStr s) # ps)) = map snd (visit_props skip q ((k, AstStr s) # ps))"
      using a by simp
  qed
next
  case (5 skip p k qs ps)
  show ?case
  proof (intro allI)
    fix q
    have a: "map snd (visit_props skip p ps) = map snd (visit_props skip q ps)"
      using 5 by blast
    have b: "k \<noteq> ''type'' \<and> isNode (AstObj qs) \<Longrightarrow>
          map snd (visit skip (p @ [(k, None)]) (AstObj qs)) = map snd (visit skip (q @ [(k, None)]) (AstObj qs))"
      using 5 by blast
    show "map snd (visit_props skip p ((k, AstObj qs) # ps)) = map snd (visit_props skip q ((k, AstObj qs) # ps))"
      using a b by (simp del: visit.simps)
  qed
next
  case (6 skip p k xs ps)
  show ?case
  proof (intro allI)
    fix q
    have a: "map snd (visit_props skip p ps) = map snd (visit_props skip q ps)"
      using 6 by blast
    have b: "k \<noteq> ''type'' \<Longrightarrow>
          map snd (visit_elems skip p k 0 xs) = map snd (visit_elems skip q k 0 xs)"
      using 6 by blast
    show "map snd (visit_props skip p ((k, AstArr xs) # ps)) = map snd (visit_props skip q ((k, AstArr xs) # ps))"
      using a b by simp
  qed
next
  case (9 skip p k i x xs)
  show ?case
  proof (intro allI)
    fix q j
    have a: "map snd (visit_elems skip p k (Suc i) xs) = map snd (visit_elems skip q k (Suc j) xs)"
      using 9 by blast
    have b: "isNode x \<Longrightarrow>
          map snd (visit skip (p @ [(k, Some i)]) x) = map snd (visit skip (q @ [(k, Some j)]) x)"
      using 9 by blast
    show "map snd (visit_elems skip p k i (x # xs)) = map snd (visit_elems skip q k j (x # xs))"
      using a b by (simp del: visit.simps)
  qed
qed simp_all


lemma split_on_no: "c \<notin> set w \<Longrightarrow> split_on c w = [w]"
  by (induction w) auto

lemma split_on_append: "c \<notin> set w \<Longrightarrow> split_on c (w @ c # r) = w # split_on c r"
  by (induction w) auto

lemma split_on_join:
  assumes "CHR '' '' \<notin> set operation" "\<forall>t \<in> set (x # xs). CHR '' '' \<notin> set t"
  shows "split_on CHR '' '' (join ('' '' @ operation @ '' '') (x # xs))
         = x # concat (map (\<lambda>y. [operation, y]) xs)"
  using assms
proof (induction xs arbitrary: x)
  case Nil
  then show ?case by (simp add: split_on_no)
next
  case (Cons y ys)
  have "join ('' '' @ operation @ '' '') (x # y # ys)
        = x @ CHR '' '' # (operation @ CHR '' '' # join ('' '' @ operation @ '' '') (y # ys))"
    by simp
  then show ?case using Cons by (simp add: split_on_append del: join.simps)
qed



lemma parseChain_identifiers:
  assumes "binaryOperator operation" "\<forall>y \<in> set ys. isIdentifier y"
  shows "parseChain l (concat (map (\<lambda>y. [operation, y]) ys))
         = Inr (foldl (\<lambda>l y. mkBinary operation l (mkIdentifier y)) l ys)"
  using assms by (induction ys arbitrary: l) (auto simp: parseOperand_def)

lemma visit_at: "map snd (visit skip p t) = map snd (visit skip [] t)"
  using visit_nodes_path(1) by blast

lemma isNode_cases: "isNode t \<Longrightarrow> \<exists>ps. t = AstObj ps"
  by (cases t) (auto simp: isNode_def)

lemma nodesOf_mkBinary:
  assumes "isNode l" "isNode r"
  shows "nodesOf (mkBinary operator l r) = mkBinary operator l r # mkLiteral operator # nodesOf l @ nodesOf r"
proof -
  obtain ls rs where l: "l = AstObj ls" and r: "r = AstObj rs"
    using assms isNode_cases by blast
  have a: "map snd (visit (\<lambda>_. False) [(''left'', None)] l) = nodesOf l"
    unfolding nodesOf_def by (rule visit_at)
  have b: "map snd (visit (\<lambda>_. False) [(''right'', None)] r) = nodesOf r"
    unfolding nodesOf_def by (rule visit_at)
  have "nodesOf (mkBinary operator l r) =
        mkBinary operator l r # mkLiteral operator #
          map snd (visit (\<lambda>_. False) [(''left'', None)] l) @ map snd (visit (\<lambda>_. False) [(''right'', None)] r)"
    using assms unfolding l r nodesOf_def mkBinary_def mkLiteral_def
    by (simp add: isNode_def del: visit.simps(1))
       (simp add: isNode_def)
  then show ?thesis using a b by simp
qed

lemma nodesOf_mkIdentifier: "nodesOf (mkIdentifier x) = [mkIdentifier x]"
  by (simp add: nodesOf_def mkIdentifier_def)

lemma nodesOf_mkProgram1:
  assumes "isNode ex"
  shows "nodesOf (mkProgram [ex]) = mkProgram [ex] # nodesOf ex"
proof -
  have a: "map snd (visit (\<lambda>_. False) [(''program'', Some 0)] ex) = nodesOf ex"
    unfolding nodesOf_def by (rule visit_at)
  have "nodesOf (mkProgram [ex]) = mkProgram [ex] # map snd (visit (\<lambda>_. False) [(''program'', Some 0)] ex)"
    using assms unfolding nodesOf_def mkProgram_def by simp
  then show ?thesis using a by simp
qed

lemma length_alphabet: "length alphabet = 26"
  by (simp add: alphabet_def)

lemma letters_upto:
  assumes "k \<le> 26"
  shows "map (\<lambda>index. charAt alphabet index) [0 ..< k] = firstLetters k"
proof (rule nth_equalityI)
  show "length (map (\<lambda>index. charAt alphabet index) [0 ..< k]) = length (firstLetters k)"
    using assms by (simp add: firstLetters_def length_alphabet)
next
  fix i assume "i < length (map (\<lambda>index. charAt alphabet index) [0 ..< k])"
  then have i: "i < k" by simp
  then show "map (\<lambda>index. charAt alphabet index) [0 ..< k] ! i = firstLetters k ! i"
    using assms by (simp add: firstLetters_def charAt_def length_alphabet)
qed

lemma distinct_alphabet: "distinct alphabet"
  by (simp add: alphabet_def)

lemma distinct_firstLetters: "distinct (firstLetters k)"
  unfolding firstLetters_def
  by (simp add: distinct_map distinct_alphabet inj_on_def)

lemma length_firstLetters: "k \<le> 26 \<Longrightarrow> length (firstLetters k) = k"
  by (simp add: firstLetters_def length_alphabet)

lemma firstLetters_Suc: "k < 26 \<Longrightarrow> firstLetters (Suc k) = firstLetters k @ [charAt alphabet k]"
  by (simp add: firstLetters_def take_Suc_conv_app_nth length_alphabet charAt_def)

lemma letter_isIdentifier: "x \<in> set (firstLetters k) \<Longrightarrow> isIdentifier x \<and> CHR '' '' \<notin> set x"
proof -
  assume "x \<in> set (firstLetters k)"
  then obtain c where c: "c \<in> set alphabet" "x = [c]"
    by (auto simp: firstLetters_def dest: in_set_takeD)
  from c(1) have "alnum c \<and> c \<notin> set ''0123456789'' \<and> c \<noteq> CHR '' ''"
    by (auto simp: alphabet_def alnum_def)
  then show ?thesis using c(2) by (auto simp: isIdentifier_def)
qed

lemma identifiersOf_simps:
  "identifiersOf (mkIdentifier x) = [x]"
  "operatorsOf (mkIdentifier x) = []"
  by (simp_all add: stringsOf_def identifiersOf_def operatorsOf_def nodesOf_mkIdentifier nodeString_def)
     (simp_all add: mkIdentifier_def typeOf_def)

lemma stringsOf_mkBinary:
  assumes "isNode l" "isNode r"
  shows "identifiersOf (mkBinary operator l r) = identifiersOf l @ identifiersOf r"
    and "operatorsOf (mkBinary operator l r) = operator # operatorsOf l @ operatorsOf r"
proof -
  have a: "nodeString ''identifier'' ''identifier'' (mkBinary operator l r) = []"
          "nodeString ''identifier'' ''identifier'' (mkLiteral operator) = []"
          "nodeString ''literal'' ''literal'' (mkBinary operator l r) = []"
          "nodeString ''literal'' ''literal'' (mkLiteral operator) = [operator]"
    by (simp_all add: nodeString_def mkBinary_def mkLiteral_def typeOf_def)
  show "identifiersOf (mkBinary operator l r) = identifiersOf l @ identifiersOf r"
    unfolding stringsOf_def identifiersOf_def operatorsOf_def nodesOf_mkBinary[OF assms] using a by simp
  show "operatorsOf (mkBinary operator l r) = operator # operatorsOf l @ operatorsOf r"
    unfolding stringsOf_def identifiersOf_def operatorsOf_def nodesOf_mkBinary[OF assms] using a by simp
qed

lemma isNode_mk: "isNode (mkIdentifier x)" "isNode (mkBinary operator l r)"
  by (simp_all add: isNode_def mkIdentifier_def mkBinary_def)

lemma isNode_chain:
  "isNode l \<Longrightarrow> isNode (foldl (\<lambda>l y. mkBinary operator l (mkIdentifier y)) l ys)"
  by (induction ys arbitrary: l) (simp_all add: isNode_mk)

lemma stringsOf_chain:
  assumes "isNode l"
  shows "identifiersOf (foldl (\<lambda>l y. mkBinary operator l (mkIdentifier y)) l ys) = identifiersOf l @ ys"
    and "operatorsOf (foldl (\<lambda>l y. mkBinary operator l (mkIdentifier y)) l ys)
         = replicate (length ys) operator @ operatorsOf l"
  using assms
proof (induction ys arbitrary: l)
  case Nil
  { case 1 show ?case by simp }
  { case 2 show ?case by simp }
next
  case (Cons y ys)
  { case 1
    have n: "isNode (mkBinary operator l (mkIdentifier y))" by (rule isNode_mk)
    show ?case using Cons.IH(1)[OF n] 1
      by (simp add: stringsOf_mkBinary isNode_mk identifiersOf_simps) }
  { case 2
    have n: "isNode (mkBinary operator l (mkIdentifier y))" by (rule isNode_mk)
    show ?case using Cons.IH(2)[OF n] 2
      by (simp add: stringsOf_mkBinary isNode_mk identifiersOf_simps replicate_append_same) }
qed

lemma stringsOf_program1:
  assumes "isNode ex"
  shows "identifiersOf (mkProgram [ex]) = identifiersOf ex"
    and "operatorsOf (mkProgram [ex]) = operatorsOf ex"
  unfolding stringsOf_def identifiersOf_def operatorsOf_def nodesOf_mkProgram1[OF assms]
  by (simp_all add: nodeString_def mkProgram_def typeOf_def)

lemma makeExpression_chain:
  assumes op: "operation \<in> {''+'', ''*''}" and k: "1 \<le> k" "k \<le> 26"
  shows "makeExpression (join ('' '' @ operation @ '' '') (firstLetters k))
         = Inr (foldl (\<lambda>l y. mkBinary operation l (mkIdentifier y))
                  (mkIdentifier ''a'') (tl (firstLetters k)))"
proof -
  have hd: "firstLetters k = ''a'' # tl (firstLetters k)"
    using k by (cases k) (simp_all add: firstLetters_def alphabet_def)
  have sp: "CHR '' '' \<notin> set operation" using op by auto
  have bo: "binaryOperator operation" using op by (auto simp: binaryOperator_def)
  have toks: "\<forall>t \<in> set (''a'' # tl (firstLetters k)). CHR '' '' \<notin> set t"
    using letter_isIdentifier[of _ k] hd by metis
  have ids: "\<forall>y \<in> set (tl (firstLetters k)). isIdentifier y"
    using letter_isIdentifier[of _ k] hd by (metis list.set_intros(2))
  have a: "isIdentifier ''a''" by (simp add: isIdentifier_def alnum_def)
  have "split_on CHR '' '' (join ('' '' @ operation @ '' '') (''a'' # tl (firstLetters k)))
        = ''a'' # concat (map (\<lambda>y. [operation, y]) (tl (firstLetters k)))"
    by (rule split_on_join[OF sp toks])
  then show ?thesis
    using hd a parseChain_identifiers[OF bo ids]
    by (simp add: makeExpression_def parseOperand_def)
qed

lemma binaryNode_source_letters:
  assumes "1 \<le> length inputEdges" "length inputEdges \<le> 26"
  shows "binaryNode_source operation inputEdges
     = join ('' '' @ operation @ '' '') (firstLetters (length inputEdges))"
proof -
  have "length inputEdges \<noteq> 0" using assms by (cases inputEdges) simp_all
  then have "binaryNode_source operation inputEdges
     = join ('' '' @ operation @ '' '')
         (map (\<lambda>index. charAt alphabet index) [0 ..< length inputEdges])"
    unfolding binaryNode_source_def by (rule if_P)
  then show ?thesis unfolding letters_upto[OF assms(2)] .
qed

lemma hd_firstLetters: "1 \<le> k \<Longrightarrow> firstLetters k = ''a'' # tl (firstLetters k)"
  by (cases k) (simp_all add: firstLetters_def alphabet_def)

lemma binaryNode_produceAst_letters:
  assumes "1 \<le> length inputEdges" "length inputEdges \<le> 26" "operation \<in> {''+'', ''*''}"
  shows "binaryNode_produceAst operation ctx engine graph node inputEdges
         = Inr (mkProgram [chainOf operation ''a'' (tl (firstLetters (length inputEdges)))])"
  unfolding binaryNode_produceAst_def binaryNode_source_letters[OF assms(1,2)]
    makeExpression_chain[OF assms(3,1,2)] chainOf_def
  by simp

lemma chain_strings:
  assumes "1 \<le> k" "k \<le> 26"
  shows "identifiersOf (mkProgram [chainOf operation ''a'' (tl (firstLetters k))]) = firstLetters k"
    and "operatorsOf (mkProgram [chainOf operation ''a'' (tl (firstLetters k))]) = replicate (k - 1) operation"
proof -
  let ?ex = "chainOf operation ''a'' (tl (firstLetters k))"
  have n: "isNode ?ex" unfolding chainOf_def by (rule isNode_chain) (rule isNode_mk)
  have i: "identifiersOf ?ex = ''a'' # tl (firstLetters k)"
    unfolding chainOf_def by (simp add: stringsOf_chain(1)[OF isNode_mk(1)] identifiersOf_simps)
  have o: "operatorsOf ?ex = replicate (length (tl (firstLetters k))) operation"
    unfolding chainOf_def by (simp add: stringsOf_chain(2)[OF isNode_mk(1)] identifiersOf_simps)
  show "identifiersOf (mkProgram [?ex]) = firstLetters k"
    using i hd_firstLetters[OF assms(1)] by (simp add: stringsOf_program1[OF n])
  show "operatorsOf (mkProgram [?ex]) = replicate (k - 1) operation"
    using o assms by (simp add: stringsOf_program1[OF n] length_firstLetters)
qed

lemma binaryNode_produceAst_empty:
  "binaryNode_produceAst ''+'' ctx engine graph node []
       = Inr (mkProgram [mkBinary ''+'' (mkIdentifier ''a'') (mkIdentifier ''b'')])"
  by (simp add: binaryNode_produceAst_def binaryNode_source_def makeExpression_def parseOperand_def
        isIdentifier_def alnum_def binaryOperator_def)

text \<open>
  C3 (amended). For a binary-operation node with \<open>k\<close> connected input edges,
  \<open>1 \<le> k \<le> 26\<close>, and the operator \<open>+\<close> or \<open>*\<close>, produceAst parses the text
  of the first \<open>k\<close> letters joined by the operator between spaces: the program holds
  one expression, the left-nested chain of exactly these \<open>k\<close> identifiers, in edge
  order, under \<open>k - 1\<close> occurrences of the operator. With no input edge and the
  operator \<open>+\<close> it produces exactly \<open>a + b\<close>.
\<close>

theorem binaryNode_produceAst_chain:
  "(1 \<le> length inputEdges \<and> length inputEdges \<le> 26 \<and> operation \<in> {''+'', ''*''} \<longrightarrow>
      binaryNode_source operation inputEdges
        = join ('' '' @ operation @ '' '') (firstLetters (length inputEdges))
      \<and> (\<exists>tree. binaryNode_produceAst operation ctx engine graph node inputEdges = Inr tree
            \<and> tree = mkProgram [chainOf operation ''a'' (tl (firstLetters (length inputEdges)))]
            \<and> identifiersOf tree = firstLetters (length inputEdges)
            \<and> operatorsOf tree = replicate (length inputEdges - 1) operation))
   \<and> binaryNode_source ''+'' [] = ''a + b''
   \<and> binaryNode_produceAst ''+'' ctx engine graph node []
       = Inr (mkProgram [mkBinary ''+'' (mkIdentifier ''a'') (mkIdentifier ''b'')])"
proof (intro conjI impI)
  assume h: "1 \<le> length inputEdges \<and> length inputEdges \<le> 26 \<and> operation \<in> {''+'', ''*''}"
  then show "binaryNode_source operation inputEdges
        = join ('' '' @ operation @ '' '') (firstLetters (length inputEdges))"
    using binaryNode_source_letters by blast
  from h show "\<exists>tree. binaryNode_produceAst operation ctx engine graph node inputEdges = Inr tree
            \<and> tree = mkProgram [chainOf operation ''a'' (tl (firstLetters (length inputEdges)))]
            \<and> identifiersOf tree = firstLetters (length inputEdges)
            \<and> operatorsOf tree = replicate (length inputEdges - 1) operation"
    using binaryNode_produceAst_letters[of inputEdges operation ctx engine graph node]
          chain_strings[of "length inputEdges" operation]
    by blast
next
  show "binaryNode_source ''+'' [] = ''a + b''"
    by (simp add: binaryNode_source_def)
  show "binaryNode_produceAst ''+'' ctx engine graph node []
       = Inr (mkProgram [mkBinary ''+'' (mkIdentifier ''a'') (mkIdentifier ''b'')])"
    by (rule binaryNode_produceAst_empty)
qed

text \<open>The theorem at three input edges: \<open>a + b + c\<close>.\<close>

theorem binaryNode_produceAst_chain_witness:
  "1 \<le> length [edge0, edge0, edge0] \<and> length [edge0, edge0, edge0] \<le> 26
   \<and> ''+'' \<in> {''+'', ''*''}
   \<and> binaryNode_source ''+'' [edge0, edge0, edge0] = ''a + b + c''
   \<and> binaryNode_produceAst ''+'' ctx0 settings0 graph0 node0 [edge0, edge0, edge0]
       = Inr (mkProgram [mkBinary ''+'' (mkBinary ''+'' (mkIdentifier ''a'') (mkIdentifier ''b''))
                                        (mkIdentifier ''c'')])
   \<and> identifiersOf (mkProgram [mkBinary ''+'' (mkBinary ''+'' (mkIdentifier ''a'') (mkIdentifier ''b''))
                                        (mkIdentifier ''c'')]) = [''a'', ''b'', ''c'']
   \<and> operatorsOf (mkProgram [mkBinary ''+'' (mkBinary ''+'' (mkIdentifier ''a'') (mkIdentifier ''b''))
                                        (mkIdentifier ''c'')]) = [''+'', ''+'']"
proof -
  have h: "1 \<le> length [edge0, edge0, edge0] \<and> length [edge0, edge0, edge0] \<le> 26
           \<and> ''+'' \<in> {''+'', ''*''}"
    by simp
  have l: "firstLetters (length [edge0, edge0, edge0]) = [''a'', ''b'', ''c'']"
    by (simp add: firstLetters_def alphabet_def)
  have c: "chainOf ''+'' ''a'' [''b'', ''c'']
           = mkBinary ''+'' (mkBinary ''+'' (mkIdentifier ''a'') (mkIdentifier ''b'')) (mkIdentifier ''c'')"
    by (simp add: chainOf_def)
  show ?thesis
    using binaryNode_produceAst_chain[of "[edge0, edge0, edge0]" "''+''" ctx0 settings0 graph0 node0] h
    unfolding l by (simp add: c)
qed

text \<open>
  With 27 input edges the alphabet is exhausted: \<^verbatim>\<open>charAt(26)\<close> is the empty
  string, the text ends in an operator and no expression is built.
\<close>

theorem binaryNode_produceAst_27_edges:
  "binaryNode_source ''+'' (replicate 27 edge0) = join '' + '' (firstLetters 26) @ '' + ''
   \<and> binaryNode_produceAst ''+'' ctx0 settings0 graph0 node0 (replicate 27 edge0)
       = Inl (SyntaxError [])"
  by code_simp

lemma dom_fold_upd:
  "dom (fold (\<lambda>l m. m(l \<mapsto> f l)) ls m) = set ls \<union> dom m"
  by (induction ls arbitrary: m) auto

lemma fold_upd_value:
  "l \<in> set ls \<Longrightarrow> fold (\<lambda>l m. m(l \<mapsto> f l)) ls m l = Some (f l)"
proof (induction ls arbitrary: m rule: rev_induct)
  case Nil
  then show ?case by simp
next
  case (snoc x xs)
  then show ?case by (cases "l = x") auto
qed

lemma identifiersNamed_empty:
  assumes "letter \<notin> set (identifiersOf ast)"
  shows "identifiersNamed letter ast = []"
proof (rule ccontr)
  assume "identifiersNamed letter ast \<noteq> []"
  then obtain p n where pn: "(p, n) \<in> set (visit (\<lambda>_. False) [] ast)"
      "typeOf n = Some ''identifier''" "getProp ''identifier'' n = Some (AstStr letter)"
    unfolding identifiersNamed_def by (auto simp: filter_empty_conv)
  then have "n \<in> set (nodesOf ast)"
    unfolding nodesOf_def by force
  moreover have "letter \<in> set (nodeString ''identifier'' ''identifier'' n)"
    using pn by (simp add: nodeString_def)
  ultimately have "letter \<in> set (identifiersOf ast)"
    unfolding identifiersOf_def stringsOf_def by auto
  then show False using assms by simp
qed

lemma binaryNode_findInputs_dom:
  assumes "length inputEdges \<le> 25"
  shows "\<exists>inputs. binaryNode_findInputs ctx node ast nodeContext inputEdges = Inr inputs
           \<and> dom inputs = set (firstLetters (max (length inputEdges + 1) 2))
           \<and> card (dom inputs) = max (length inputEdges + 1) 2
           \<and> (\<forall>letter \<in> dom inputs. inputs letter = Some (binaryNode_filler letter))"
proof -
  let ?n = "max (length inputEdges + 1) 2"
  let ?inputs = "fold (\<lambda>letter inputs. inputs(letter \<mapsto> binaryNode_filler letter))
                   (firstLetters ?n) Map.empty"
  have n: "?n \<le> 26" using assms by simp
  have r: "binaryNode_findInputs ctx node ast nodeContext inputEdges = Inr ?inputs"
    unfolding binaryNode_findInputs_def letters_upto[OF n] ..
  have d: "dom ?inputs = set (firstLetters ?n)"
    by (simp add: dom_fold_upd)
  have c: "card (set (firstLetters ?n)) = ?n"
    using distinct_card[OF distinct_firstLetters, of ?n] length_firstLetters[OF n] by simp
  have v: "\<forall>letter \<in> dom ?inputs. ?inputs letter = Some (binaryNode_filler letter)"
    unfolding d using fold_upd_value[of _ "firstLetters ?n" binaryNode_filler Map.empty] by blast
  show ?thesis
  proof (intro exI conjI)
    show "binaryNode_findInputs ctx node ast nodeContext inputEdges = Inr ?inputs" by (rule r)
    show "dom ?inputs = set (firstLetters ?n)" by (rule d)
    show "card (dom ?inputs) = ?n" unfolding d by (rule c)
    show "\<forall>letter \<in> dom ?inputs. ?inputs letter = Some (binaryNode_filler letter)" by (rule v)
  qed
qed

lemma extra_letter_fresh:
  assumes "k \<le> 25"
  shows "charAt alphabet k \<notin> set (firstLetters k)" "charAt alphabet k \<in> set (firstLetters (Suc k))"
proof -
  have s: "firstLetters (Suc k) = firstLetters k @ [charAt alphabet k]"
    using assms by (simp add: firstLetters_Suc)
  have "distinct (firstLetters (Suc k))" by (rule distinct_firstLetters)
  then show "charAt alphabet k \<notin> set (firstLetters k)" unfolding s by simp
  show "charAt alphabet k \<in> set (firstLetters (Suc k))" unfolding s by simp
qed

text \<open>
  C9 (amended). For a binary-operation node with \<open>k \<le> 25\<close> connected input edges,
  findInputs returns a filler map with exactly \<open>max (k + 1) 2\<close> entries, keyed by the
  first \<open>max (k + 1) 2\<close> letters: one slot more than edges whenever \<open>k \<ge> 1\<close>. For
  \<open>1 \<le> k \<le> 25\<close> the synthesized expression holds exactly the first \<open>k\<close> letters
  (two only when \<open>k = 0\<close>, see C3), so the filler of the extra slot, run on the
  produced tree, finds no identifier of its letter and throws.
\<close>

theorem binaryNode_findInputs_slots:
  "(length inputEdges \<le> 25 \<longrightarrow>
      (\<exists>inputs. binaryNode_findInputs ctx node ast nodeContext inputEdges = Inr inputs
         \<and> dom inputs = set (firstLetters (max (length inputEdges + 1) 2))
         \<and> card (dom inputs) = max (length inputEdges + 1) 2
         \<and> (\<forall>letter \<in> dom inputs. inputs letter = Some (binaryNode_filler letter))))
   \<and> (1 \<le> length inputEdges \<and> length inputEdges \<le> 25 \<and> operation \<in> {''+'', ''*''} \<longrightarrow>
      (\<exists>tree inputs.
         binaryNode_produceAst operation ctx engine graph node inputEdges = Inr tree
         \<and> identifiersOf tree = firstLetters (length inputEdges)
         \<and> length (identifiersOf tree) = length inputEdges
         \<and> binaryNode_findInputs ctx node tree nodeContext inputEdges = Inr inputs
         \<and> inputs (charAt alphabet (length inputEdges))
             = Some (binaryNode_filler (charAt alphabet (length inputEdges)))
         \<and> binaryNode_filler (charAt alphabet (length inputEdges)) fillerAst tree
             = Inl (MissingFillerTarget (charAt alphabet (length inputEdges)))))"
proof (intro conjI impI)
  assume "length inputEdges \<le> 25"
  then show "\<exists>inputs. binaryNode_findInputs ctx node ast nodeContext inputEdges = Inr inputs
         \<and> dom inputs = set (firstLetters (max (length inputEdges + 1) 2))
         \<and> card (dom inputs) = max (length inputEdges + 1) 2
         \<and> (\<forall>letter \<in> dom inputs. inputs letter = Some (binaryNode_filler letter))"
    by (rule binaryNode_findInputs_dom)
next
  let ?k = "length inputEdges"
  let ?tree = "mkProgram [chainOf operation ''a'' (tl (firstLetters ?k))]"
  assume h: "1 \<le> ?k \<and> ?k \<le> 25 \<and> operation \<in> {''+'', ''*''}"
  then have k: "1 \<le> ?k" "?k \<le> 26" "?k \<le> 25" and op: "operation \<in> {''+'', ''*''}" by simp_all
  have t: "binaryNode_produceAst operation ctx engine graph node inputEdges = Inr ?tree"
    by (rule binaryNode_produceAst_letters[OF k(1,2) op])
  have i: "identifiersOf ?tree = firstLetters ?k"
    by (rule chain_strings(1)[OF k(1,2)])
  obtain inputs where inp: "binaryNode_findInputs ctx node ?tree nodeContext inputEdges = Inr inputs"
      "dom inputs = set (firstLetters (max (?k + 1) 2))"
      "\<forall>letter \<in> dom inputs. inputs letter = Some (binaryNode_filler letter)"
    using binaryNode_findInputs_dom[OF k(3)] by blast
  have m: "max (?k + 1) 2 = Suc ?k" using k(1) by simp
  have e: "inputs (charAt alphabet ?k) = Some (binaryNode_filler (charAt alphabet ?k))"
    using inp(2,3) extra_letter_fresh(2)[OF k(3)] unfolding m by blast
  have "identifiersNamed (charAt alphabet ?k) ?tree = []"
    by (rule identifiersNamed_empty) (simp add: i extra_letter_fresh(1)[OF k(3)])
  then have f: "binaryNode_filler (charAt alphabet ?k) fillerAst ?tree
             = Inl (MissingFillerTarget (charAt alphabet ?k))"
    by (simp add: binaryNode_filler_def)
  show "\<exists>tree inputs.
         binaryNode_produceAst operation ctx engine graph node inputEdges = Inr tree
         \<and> identifiersOf tree = firstLetters ?k
         \<and> length (identifiersOf tree) = ?k
         \<and> binaryNode_findInputs ctx node tree nodeContext inputEdges = Inr inputs
         \<and> inputs (charAt alphabet ?k) = Some (binaryNode_filler (charAt alphabet ?k))
         \<and> binaryNode_filler (charAt alphabet ?k) fillerAst tree
             = Inl (MissingFillerTarget (charAt alphabet ?k))"
  proof (intro exI conjI)
    show "binaryNode_produceAst operation ctx engine graph node inputEdges = Inr ?tree" by (rule t)
    show "identifiersOf ?tree = firstLetters ?k" by (rule i)
    show "length (identifiersOf ?tree) = ?k" unfolding i by (rule length_firstLetters[OF k(2)])
    show "binaryNode_findInputs ctx node ?tree nodeContext inputEdges = Inr inputs" by (rule inp(1))
    show "inputs (charAt alphabet ?k) = Some (binaryNode_filler (charAt alphabet ?k))" by (rule e)
    show "binaryNode_filler (charAt alphabet ?k) fillerAst ?tree
             = Inl (MissingFillerTarget (charAt alphabet ?k))" by (rule f)
  qed
qed

text \<open>The theorem at two input edges: slots \<open>a\<close>, \<open>b\<close>, \<open>c\<close> over the
  expression \<open>a + b\<close>, and the filler of \<open>c\<close> throws.\<close>

theorem binaryNode_findInputs_slots_witness:
  "length [edge0, edge0] \<le> 25 \<and> 1 \<le> length [edge0, edge0] \<and> ''+'' \<in> {''+'', ''*''}
   \<and> (\<exists>inputs. binaryNode_findInputs ctx0 node0 (mkProgram []) nc0 [edge0, edge0] = Inr inputs
          \<and> dom inputs = {''a'', ''b'', ''c''} \<and> card (dom inputs) = 3)
   \<and> binaryNode_produceAst ''+'' ctx0 settings0 graph0 node0 [edge0, edge0]
       = Inr (mkProgram [mkBinary ''+'' (mkIdentifier ''a'') (mkIdentifier ''b'')])
   \<and> binaryNode_filler ''c'' (mkIdentifier ''x'')
         (mkProgram [mkBinary ''+'' (mkIdentifier ''a'') (mkIdentifier ''b'')])
       = Inl (MissingFillerTarget ''c'')"
proof -
  note inst = binaryNode_findInputs_slots[of "[edge0, edge0]" ctx0 node0 "mkProgram []" nc0 "''+''"
      settings0 graph0 "mkIdentifier ''x''"]
  have h1: "length [edge0, edge0] \<le> 25" by simp
  have h2: "1 \<le> length [edge0, edge0] \<and> length [edge0, edge0] \<le> 25 \<and> ''+'' \<in> {''+'', ''*''}"
    by simp
  have l3: "firstLetters (max (length [edge0, edge0] + 1) 2) = [''a'', ''b'', ''c'']"
    by (simp add: firstLetters_def alphabet_def)
  have c2: "charAt alphabet (length [edge0, edge0]) = ''c''"
    by (simp add: charAt_def alphabet_def)
  have p: "binaryNode_produceAst ''+'' ctx0 settings0 graph0 node0 [edge0, edge0]
       = Inr (mkProgram [mkBinary ''+'' (mkIdentifier ''a'') (mkIdentifier ''b'')])"
    by code_simp
  have i1: "\<exists>inputs. binaryNode_findInputs ctx0 node0 (mkProgram []) nc0 [edge0, edge0] = Inr inputs
         \<and> dom inputs = set (firstLetters (max (length [edge0, edge0] + 1) 2))
         \<and> card (dom inputs) = max (length [edge0, edge0] + 1) 2
         \<and> (\<forall>letter \<in> dom inputs. inputs letter = Some (binaryNode_filler letter))"
    using inst[THEN conjunct1] h1 by (rule mp)
  then obtain inputs where inp: "binaryNode_findInputs ctx0 node0 (mkProgram []) nc0 [edge0, edge0] = Inr inputs"
      "dom inputs = set (firstLetters (max (length [edge0, edge0] + 1) 2))"
      "card (dom inputs) = max (length [edge0, edge0] + 1) 2"
    by blast
  have a: "\<exists>inputs. binaryNode_findInputs ctx0 node0 (mkProgram []) nc0 [edge0, edge0] = Inr inputs
          \<and> dom inputs = {''a'', ''b'', ''c''} \<and> card (dom inputs) = 3"
  proof (intro exI conjI)
    show "binaryNode_findInputs ctx0 node0 (mkProgram []) nc0 [edge0, edge0] = Inr inputs" by (rule inp(1))
    show "dom inputs = {''a'', ''b'', ''c''}" using inp(2) unfolding l3 by simp
    show "card (dom inputs) = 3" using inp(3) by simp
  qed
  obtain tree where t: "binaryNode_produceAst ''+'' ctx0 settings0 graph0 node0 [edge0, edge0] = Inr tree"
      "binaryNode_filler ''c'' (mkIdentifier ''x'') tree = Inl (MissingFillerTarget ''c'')"
    using inst[THEN conjunct2, THEN mp, OF h2] unfolding c2 by blast
  from t(1) p have "tree = mkProgram [mkBinary ''+'' (mkIdentifier ''a'') (mkIdentifier ''b'')]"
    by simp
  then have f: "binaryNode_filler ''c'' (mkIdentifier ''x'')
         (mkProgram [mkBinary ''+'' (mkIdentifier ''a'') (mkIdentifier ''b'')])
       = Inl (MissingFillerTarget ''c'')" using t(2) by simp
  show ?thesis
  proof (intro conjI)
    show "length [edge0, edge0] \<le> 25" by simp
    show "1 \<le> length [edge0, edge0]" by simp
    show "''+'' \<in> {''+'', ''*''}" by simp
    show "\<exists>inputs. binaryNode_findInputs ctx0 node0 (mkProgram []) nc0 [edge0, edge0] = Inr inputs
          \<and> dom inputs = {''a'', ''b'', ''c''} \<and> card (dom inputs) = 3" by (rule a)
    show "binaryNode_produceAst ''+'' ctx0 settings0 graph0 node0 [edge0, edge0]
       = Inr (mkProgram [mkBinary ''+'' (mkIdentifier ''a'') (mkIdentifier ''b'')])" by (rule p)
    show "binaryNode_filler ''c'' (mkIdentifier ''x'')
         (mkProgram [mkBinary ''+'' (mkIdentifier ''a'') (mkIdentifier ''b'')])
       = Inl (MissingFillerTarget ''c'')" by (rule f)
  qed
qed

text \<open>
  With one input edge the expression is the single identifier \<open>a\<close>, not
  \<open>max k 2 = 2\<close> identifiers; with 26 input edges the 27th key is the empty string,
  not a letter.
\<close>

theorem binaryNode_findInputs_one_edge:
  "binaryNode_produceAst ''+'' ctx0 settings0 graph0 node0 [edge0]
     = Inr (mkProgram [mkIdentifier ''a''])
   \<and> identifiersOf (mkProgram [mkIdentifier ''a'']) = [''a'']
   \<and> length (identifiersOf (mkProgram [mkIdentifier ''a''])) \<noteq> max (length [edge0]) 2
   \<and> (case binaryNode_findInputs ctx0 node0 (mkProgram [mkIdentifier ''a'']) nc0 (replicate 26 edge0) of
         Inl e \<Rightarrow> False
       | Inr inputs \<Rightarrow> inputs [] \<noteq> None \<and> [] \<notin> set (firstLetters 27))"
proof -
  have p: "binaryNode_produceAst ''+'' ctx0 settings0 graph0 node0 [edge0]
     = Inr (mkProgram [mkIdentifier ''a''])"
    by code_simp
  have i: "identifiersOf (mkProgram [mkIdentifier ''a'']) = [''a'']"
    by (simp add: stringsOf_program1[OF isNode_mk(1)] identifiersOf_simps)
  have c: "charAt alphabet 26 = []" by (simp add: charAt_def alphabet_def)
  have u: "[0 ..< 27] = [0 ..< 26] @ [26]" by (simp add: upt_rec)
  have f: "[] \<in> dom (fold (\<lambda>letter inputs. inputs(letter \<mapsto> binaryNode_filler letter))
            (map (\<lambda>index. charAt alphabet index) [0 ..< 27]) Map.empty)"
    unfolding dom_fold_upd u by (simp add: c)
  have n: "[] \<notin> set (firstLetters 27)" by (auto simp: firstLetters_def)
  have m: "max (length (replicate 26 edge0) + 1) 2 = 27" by simp
  have r: "binaryNode_findInputs ctx0 node0 (mkProgram [mkIdentifier ''a'']) nc0 (replicate 26 edge0)
           = Inr (fold (\<lambda>letter inputs. inputs(letter \<mapsto> binaryNode_filler letter))
            (map (\<lambda>index. charAt alphabet index) [0 ..< 27]) Map.empty)"
    unfolding binaryNode_findInputs_def m ..
  have g: "fold (\<lambda>letter inputs. inputs(letter \<mapsto> binaryNode_filler letter))
            (map (\<lambda>index. charAt alphabet index) [0 ..< 27]) Map.empty [] \<noteq> None"
    using f by (simp only: domIff not_False_eq_True)
  have l: "length (identifiersOf (mkProgram [mkIdentifier ''a''])) \<noteq> max (length [edge0]) 2"
    unfolding i by simp
  show ?thesis unfolding r using p i l g n by simp
qed

section \<open>Collecting connected nodes\<close>

subsection \<open>Dictionaries\<close>

lemma keys_putId: "fst ` set (putId k v al) = insert k (fst ` set al)"
  by (induction al) auto

lemma set_putId: "set (putId k v al) \<subseteq> insert (k, v) (set al)"
  by (induction al) auto

lemma putId_mem: "(k, v) \<in> set (putId k v al)"
  by (induction al) auto

lemma map_of_putId: "map_of (putId k v al) = (map_of al)(k \<mapsto> v)"
  by (induction al) (auto simp: fun_eq_iff)

lemma keys_spread: "fst ` set (spread a b) = fst ` set a \<union> fst ` set b"
  unfolding spread_def
  by (induction b arbitrary: a) (auto simp: keys_putId split: prod.splits)

lemma set_spread: "set (spread a b) \<subseteq> set a \<union> set b"
  unfolding spread_def
proof (induction b arbitrary: a)
  case Nil
  then show ?case by simp
next
  case (Cons p b)
  obtain k v where p: "p = (k, v)" by (cases p)
  have "set (fold (\<lambda>(k, v). putId k v) b (putId k v a)) \<subseteq> set (putId k v a) \<union> set b"
    by (rule Cons.IH)
  then show ?case using set_putId[of k v a] unfolding p by auto
qed

lemma map_of_keys: "(map_of al k = None) = (k \<notin> fst ` set al)"
  by (simp add: map_of_eq_None_iff)

subsection \<open>Loops\<close>

lemma forEachE_induct:
  assumes "forEachE f xs s = Inr s'"
    and "P [] s"
    and "\<And>ys x s t. P ys s \<Longrightarrow> x \<in> set xs \<Longrightarrow> f x s = Inr t \<Longrightarrow> P (ys @ [x]) t"
  shows "P xs s'"
  using assms
proof (induction xs arbitrary: s P)
  case Nil
  then show ?case by simp
next
  case (Cons x xs)
  from Cons.prems(1) obtain t where t: "f x s = Inr t" "forEachE f xs t = Inr s'"
    by (auto split: sum.splits)
  have p1: "P [x] t" using Cons.prems(3)[of "[]" s x t] Cons.prems(2) t(1) by simp
  show ?case
  proof (rule Cons.IH[of t "\<lambda>ys u. P (x # ys) u", OF t(2)])
    show "P [x] t" by (rule p1)
  next
    fix ys y s0 t0
    assume "P (x # ys) s0" "y \<in> set xs" "f y s0 = Inr t0"
    then show "P (x # ys @ [y]) t0" using Cons.prems(3)[of "x # ys" s0 y t0] by simp
  qed
qed


lemma forEachE_total:
  assumes "\<And>x s. x \<in> set xs \<Longrightarrow> \<exists>t. f x s = Inr t"
  shows "\<exists>s'. forEachE f xs s = Inr s'"
  using assms
proof (induction xs arbitrary: s)
  case Nil
  then show ?case by simp
next
  case (Cons x xs)
  obtain t where "f x s = Inr t" using Cons.prems[of x s] by auto
  then show ?case using Cons.IH[of t] Cons.prems by auto
qed


subsection \<open>Reachability\<close>

lemma findNode_id: "findNode graph i = Some node \<Longrightarrow> node_id node = i"
  unfolding findNode_def by (auto simp: find_Some_iff)

lemma findNode_mem: "findNode graph i = Some node \<Longrightarrow> node \<in> set (graph_nodes graph)"
  unfolding findNode_def by (auto simp: find_Some_iff)

lemma reachable_trans_step:
  assumes "reachable graph edges m k" "edge \<in> set edges" "edge_to edge = node_id n"
    "findNode graph (edge_from edge) = Some m"
  shows "reachable graph edges n k"
  using assms(1)
proof (induction rule: reachable.induct)
  case start
  show ?case by (rule reachable.step[OF reachable.start assms(2,3,4)])
next
  case (step node edge' fromNode)
  then show ?case using reachable.step by blast
qed

lemma reachable_unfold:
  "reachable graph edges n k \<longleftrightarrow>
     k = n \<or> (\<exists>edge \<in> set edges. edge_to edge = node_id n
               \<and> (\<exists>m. findNode graph (edge_from edge) = Some m \<and> reachable graph edges m k))"
proof
  assume "reachable graph edges n k"
  then show "k = n \<or> (\<exists>edge \<in> set edges. edge_to edge = node_id n
               \<and> (\<exists>m. findNode graph (edge_from edge) = Some m \<and> reachable graph edges m k))"
  proof (induction rule: reachable.induct)
    case start
    then show ?case by simp
  next
    case (step node edge fromNode)
    show ?case
    proof (cases "node = n")
      case True
      then show ?thesis using step.hyps(2,3,4) reachable.start by blast
    next
      case False
      then obtain e m where "e \<in> set edges" "edge_to e = node_id n"
          "findNode graph (edge_from e) = Some m" "reachable graph edges m node"
        using step.IH by blast
      then show ?thesis using reachable.step[OF _ step.hyps(2,3,4)] by blast
    qed
  qed
next
  assume "k = n \<or> (\<exists>edge \<in> set edges. edge_to edge = node_id n
               \<and> (\<exists>m. findNode graph (edge_from edge) = Some m \<and> reachable graph edges m k))"
  then show "reachable graph edges n k"
    using reachable.start reachable_trans_step by blast
qed

lemma sourcesReach_Nil: "sourcesReach graph edges [] = {}"
  by (simp add: sourcesReach_def)

lemma sourcesReach_snoc:
  "findNode graph (edge_from x) = Some m \<Longrightarrow>
   sourcesReach graph edges (ys @ [x]) = sourcesReach graph edges ys \<union> {k. reachable graph edges m k}"
  by (auto simp: sourcesReach_def)

lemma reachable_sources:
  "{k. reachable graph edges n k}
     = insert n (sourcesReach graph edges (filter (\<lambda>edge. edge_to edge = node_id n) edges))"
  unfolding sourcesReach_def using reachable_unfold[of graph edges n] by auto

lemma noDangling_unfold:
  "noDangling graph edges n \<longleftrightarrow>
     (\<forall>e \<in> set (filter (\<lambda>edge. edge_to edge = node_id n) edges).
        \<exists>m. findNode graph (edge_from e) = Some m \<and> noDangling graph edges m)"
proof
  assume nd: "noDangling graph edges n"
  show "\<forall>e \<in> set (filter (\<lambda>edge. edge_to edge = node_id n) edges).
        \<exists>m. findNode graph (edge_from e) = Some m \<and> noDangling graph edges m"
  proof
    fix e assume e: "e \<in> set (filter (\<lambda>edge. edge_to edge = node_id n) edges)"
    then have "findNode graph (edge_from e) \<noteq> None"
      using nd reachable.start[of graph edges n] unfolding noDangling_def by auto
    then obtain m where m: "findNode graph (edge_from e) = Some m" by auto
    have "noDangling graph edges m"
      unfolding noDangling_def
    proof (intro allI impI)
      fix k assume "reachable graph edges m k"
      then have "reachable graph edges n k"
        using reachable_trans_step[of graph edges m k e n] e m by simp
      then show "\<forall>e\<in>set edges. edge_to e = node_id k \<longrightarrow> findNode graph (edge_from e) \<noteq> None"
        using nd unfolding noDangling_def by blast
    qed
    then show "\<exists>m. findNode graph (edge_from e) = Some m \<and> noDangling graph edges m"
      using m by blast
  qed
next
  assume a: "\<forall>e \<in> set (filter (\<lambda>edge. edge_to edge = node_id n) edges).
        \<exists>m. findNode graph (edge_from e) = Some m \<and> noDangling graph edges m"
  show "noDangling graph edges n"
    unfolding noDangling_def
  proof (intro allI impI ballI)
    fix k e assume k: "reachable graph edges n k" and e: "e \<in> set edges" "edge_to e = node_id k"
    from k have "k = n \<or> (\<exists>edge \<in> set edges. edge_to edge = node_id n
               \<and> (\<exists>m. findNode graph (edge_from edge) = Some m \<and> reachable graph edges m k))"
      using reachable_unfold by blast
    then show "findNode graph (edge_from e) \<noteq> None"
    proof
      assume "k = n"
      then show ?thesis using a e by auto
    next
      assume "\<exists>edge \<in> set edges. edge_to edge = node_id n
               \<and> (\<exists>m. findNode graph (edge_from edge) = Some m \<and> reachable graph edges m k)"
      then obtain edge m where em: "edge \<in> set edges" "edge_to edge = node_id n"
          "findNode graph (edge_from edge) = Some m" "reachable graph edges m k" by blast
      then have "noDangling graph edges m" using a by auto
      then show ?thesis using em(4) e unfolding noDangling_def by blast
    qed
  qed
qed

lemma collected_start: "collected graph edges ids {} ids"
  by (simp add: collected_def)

lemma collected_spread:
  assumes "collected graph edges ids S acc" "collected graph edges ids T child"
  shows "collected graph edges ids (S \<union> T) (spread acc child)"
proof -
  have ka: "fst ` set acc = fst ` set ids \<union> node_id ` S"
    using assms(1) unfolding collected_def by (rule conjunct1)
  have kc: "fst ` set child = fst ` set ids \<union> node_id ` T"
    using assms(2) unfolding collected_def by (rule conjunct1)
  have ea: "\<And>i v. (i, v) \<in> set acc \<Longrightarrow> (i, v) \<in> set ids \<or> (v \<in> S \<and> node_id v = i)"
    using conjunct2[OF assms(1)[unfolded collected_def]] by blast
  have ec: "\<And>i v. (i, v) \<in> set child \<Longrightarrow> (i, v) \<in> set ids \<or> (v \<in> T \<and> node_id v = i)"
    using conjunct2[OF assms(2)[unfolded collected_def]] by blast
  have k: "fst ` set (spread acc child) = fst ` set ids \<union> node_id ` (S \<union> T)"
    unfolding keys_spread ka kc image_Un by blast
  have e: "\<forall>i v. (i, v) \<in> set (spread acc child) \<longrightarrow> (i, v) \<in> set ids \<or> (v \<in> S \<union> T \<and> node_id v = i)"
  proof (intro allI impI)
    fix i v assume "(i, v) \<in> set (spread acc child)"
    then have "(i, v) \<in> set acc \<or> (i, v) \<in> set child" using set_spread[of acc child] by blast
    then show "(i, v) \<in> set ids \<or> (v \<in> S \<union> T \<and> node_id v = i)"
      using ea[of i v] ec[of i v] by blast
  qed
  show ?thesis unfolding collected_def using k e by (rule conjI)
qed

lemma collected_putId:
  assumes "collected graph edges ids S acc"
  shows "collected graph edges ids (insert n S) (putId (node_id n) n acc)"
proof -
  have ka: "fst ` set acc = fst ` set ids \<union> node_id ` S"
    using assms unfolding collected_def by (rule conjunct1)
  have ea: "\<And>i v. (i, v) \<in> set acc \<Longrightarrow> (i, v) \<in> set ids \<or> (v \<in> S \<and> node_id v = i)"
    using conjunct2[OF assms[unfolded collected_def]] by blast
  have k: "fst ` set (putId (node_id n) n acc) = fst ` set ids \<union> node_id ` (insert n S)"
    unfolding keys_putId ka by blast
  have e: "\<forall>i v. (i, v) \<in> set (putId (node_id n) n acc) \<longrightarrow> (i, v) \<in> set ids \<or> (v \<in> insert n S \<and> node_id v = i)"
  proof (intro allI impI)
    fix i v assume "(i, v) \<in> set (putId (node_id n) n acc)"
    then have "(i, v) = (node_id n, n) \<or> (i, v) \<in> set acc" using set_putId[of "node_id n" n acc] by blast
    then show "(i, v) \<in> set ids \<or> (v \<in> insert n S \<and> node_id v = i)"
      using ea[of i v] by blast
  qed
  show ?thesis unfolding collected_def using k e by (rule conjI)
qed

lemma collectConnectedNodes_result:
  "collectConnectedNodes fuel graph edges n ids = Inr result \<Longrightarrow>
     collected graph edges ids {k. reachable graph edges n k} result \<and> noDangling graph edges n"
proof (induction fuel arbitrary: n result)
  case 0
  then show ?case by simp
next
  case (Suc fuel)
  let ?L = "filter (\<lambda>edge. edge_to edge = node_id n) edges"
  let ?f = "\<lambda>edge compiledIds.
                case findNode graph (edge_from edge) of
                  None \<Rightarrow> Inl (DanglingEdge (edge_from edge))
                | Some fromNode \<Rightarrow>
                    (case collectConnectedNodes fuel graph edges fromNode ids of
                       Inl e \<Rightarrow> Inl e
                     | Inr childIds \<Rightarrow> Inr (spread compiledIds childIds))"
  from Suc.prems obtain compiledIds where
    loop: "forEachE ?f ?L ids = Inr compiledIds" and
    res: "result = putId (node_id n) n compiledIds"
    by (auto split: sum.splits)
  let ?P = "\<lambda>ys acc. collected graph edges ids (sourcesReach graph edges ys) acc
              \<and> (\<forall>e \<in> set ys. \<exists>m. findNode graph (edge_from e) = Some m \<and> noDangling graph edges m)"
  have inv: "?P ?L compiledIds"
  proof (rule forEachE_induct[OF loop, of ?P])
    show "?P [] ids" by (simp add: sourcesReach_Nil collected_start)
  next
    fix ys x acc t
    assume p: "?P ys acc" and x: "x \<in> set ?L" and fx: "?f x acc = Inr t"
    from fx obtain m child where m: "findNode graph (edge_from x) = Some m"
      and c: "collectConnectedNodes fuel graph edges m ids = Inr child"
      and t: "t = spread acc child"
      by (auto split: option.splits sum.splits)
    have ih: "collected graph edges ids {k. reachable graph edges m k} child" "noDangling graph edges m"
      using Suc.IH[OF c] by simp_all
    have "collected graph edges ids (sourcesReach graph edges (ys @ [x])) t"
      unfolding t sourcesReach_snoc[OF m] using collected_spread[OF conjunct1[OF p] ih(1)] .
    moreover have "\<forall>e \<in> set (ys @ [x]). \<exists>m. findNode graph (edge_from e) = Some m \<and> noDangling graph edges m"
      using p m ih(2) by auto
    ultimately show "?P (ys @ [x]) t" by blast
  qed
  have "collected graph edges ids {k. reachable graph edges n k} result"
    unfolding res reachable_sources[of graph edges n] using collected_putId[OF conjunct1[OF inv]] .
  moreover have "noDangling graph edges n"
    using inv noDangling_unfold[of graph edges n] by blast
  ultimately show ?case by blast
qed

lemma collectConnectedNodes_leaf:
  "filter (\<lambda>edge. edge_to edge = node_id node) edges = [] \<Longrightarrow>
   collectConnectedNodes (Suc fuel) graph edges node ids = Inr (putId (node_id node) node ids)"
  by simp

lemma reachable_findNode:
  assumes "findNode graph (node_id n) = Some n" "reachable graph edges n k"
  shows "findNode graph (node_id k) = Some k"
  using assms(2)
proof (induction rule: reachable.induct)
  case start
  show ?case by (rule assms(1))
next
  case (step node edge fromNode)
  then show ?case using findNode_id[of graph "edge_from edge" fromNode] by simp
qed

lemma collected_keys:
  "collected graph edges ids S r \<Longrightarrow> fst ` set r = fst ` set ids \<union> node_id ` S"
  by (simp add: collected_def)

lemma collected_entry:
  "collected graph edges ids S r \<Longrightarrow> (i, v) \<in> set r \<Longrightarrow> (i, v) \<in> set ids \<or> (v \<in> S \<and> node_id v = i)"
  by (simp add: collected_def)

lemma collected_values:
  assumes c: "collected graph edges [] {k. reachable graph edges n k} result"
    and n: "findNode graph (node_id n) = Some n"
    and k: "reachable graph edges n k"
  shows "map_of result (node_id k) = Some k"
proof -
  have "node_id k \<in> fst ` set result"
    unfolding collected_keys[OF c] using k by simp
  then obtain v where v: "map_of result (node_id k) = Some v"
    using map_of_keys[of result "node_id k"] by auto
  then have "(node_id k, v) \<in> set result" by (rule map_of_SomeD)
  then have rv: "reachable graph edges n v" "node_id v = node_id k"
    using collected_entry[OF c, of "node_id k" v] by simp_all
  have "findNode graph (node_id v) = Some v" by (rule reachable_findNode[OF n rv(1)])
  then have a: "findNode graph (node_id k) = Some v" unfolding rv(2) .
  have b: "findNode graph (node_id k) = Some k" by (rule reachable_findNode[OF n k])
  have "Some v = Some k" by (rule trans[OF a[symmetric] b])
  then show ?thesis unfolding v by simp
qed

lemma collectConnectedNodes_total:
  assumes edges: "\<forall>e \<in> set edges. findNode graph (edge_from e) \<noteq> None \<and> rank (edge_from e) < rank (edge_to e)"
  shows "rank (node_id n) < fuel \<Longrightarrow> \<exists>result. collectConnectedNodes fuel graph edges n ids = Inr result"
proof (induction fuel arbitrary: n)
  case 0
  then show ?case by simp
next
  case (Suc fuel)
  let ?L = "filter (\<lambda>edge. edge_to edge = node_id n) edges"
  let ?f = "\<lambda>edge compiledIds.
                case findNode graph (edge_from edge) of
                  None \<Rightarrow> Inl (DanglingEdge (edge_from edge))
                | Some fromNode \<Rightarrow>
                    (case collectConnectedNodes fuel graph edges fromNode ids of
                       Inl e \<Rightarrow> Inl e
                     | Inr childIds \<Rightarrow> Inr (spread compiledIds childIds))"
  have "\<exists>s'. forEachE ?f ?L ids = Inr s'"
  proof (rule forEachE_total)
    fix x s assume x: "x \<in> set ?L"
    then have xe: "x \<in> set edges" "edge_to x = node_id n" by simp_all
    then obtain m where m: "findNode graph (edge_from x) = Some m" using edges by auto
    have "rank (node_id m) < fuel"
      using edges xe Suc.prems findNode_id[OF m] by fastforce
    then obtain child where "collectConnectedNodes fuel graph edges m ids = Inr child"
      using Suc.IH by blast
    then show "\<exists>t. ?f x s = Inr t" using m by simp
  qed
  then show ?case by auto
qed

lemma collectCalls_result:
  "collectCalls fuel graph edges n = Inr calls \<Longrightarrow>
     set calls = node_id ` {k. reachable graph edges n k} \<and> hd calls = node_id n"
proof (induction fuel arbitrary: n calls)
  case 0
  then show ?case by simp
next
  case (Suc fuel)
  let ?L = "filter (\<lambda>edge. edge_to edge = node_id n) edges"
  let ?f = "\<lambda>edge calls.
                case findNode graph (edge_from edge) of
                  None \<Rightarrow> Inl (DanglingEdge (edge_from edge))
                | Some fromNode \<Rightarrow>
                    (case collectCalls fuel graph edges fromNode of
                       Inl e \<Rightarrow> Inl e
                     | Inr childCalls \<Rightarrow> Inr (calls @ childCalls))"
  from Suc.prems have loop: "forEachE ?f ?L [node_id n] = Inr calls"
    by (auto split: sum.splits)
  let ?P = "\<lambda>ys acc. set acc = insert (node_id n) (node_id ` sourcesReach graph edges ys)
                \<and> hd acc = node_id n \<and> acc \<noteq> []"
  have inv: "?P ?L calls"
  proof (rule forEachE_induct[OF loop, of ?P])
    show "?P [] [node_id n]" by (simp add: sourcesReach_Nil)
  next
    fix ys x acc t
    assume p: "?P ys acc" and x: "x \<in> set ?L" and fx: "?f x acc = Inr t"
    from fx obtain m child where m: "findNode graph (edge_from x) = Some m"
      and c: "collectCalls fuel graph edges m = Inr child"
      and t: "t = acc @ child"
      by (auto split: option.splits sum.splits)
    have ih: "set child = node_id ` {k. reachable graph edges m k}"
      using Suc.IH[OF c] by simp
    show "?P (ys @ [x]) t"
      unfolding t sourcesReach_snoc[OF m] using p ih by (auto simp: image_Un)
  qed
  show ?case
    unfolding reachable_sources[of graph edges n] using inv by simp
qed

lemma diamond_collect:
  "collectConnectedNodes 3 diamond diamondEdges dOut []
     = Inr [(''d'', dD), (''b'', dB), (''c'', dC), (''out'', dOut)]"
  by code_simp

lemma diamond_calls:
  "collectCalls 3 diamond diamondEdges dOut = Inr [''out'', ''b'', ''d'', ''c'', ''d'']"
  by code_simp

lemma diamond_findNode:
  "findNode diamond ''out'' = Some dOut" "findNode diamond ''b'' = Some dB"
  "findNode diamond ''c'' = Some dC" "findNode diamond ''d'' = Some dD"
  by code_simp+

lemma diamond_leaf: "filter (\<lambda>edge. edge_to edge = node_id dD) diamondEdges = []"
  by code_simp

lemma diamond_rank:
  "\<forall>e \<in> set diamondEdges. findNode diamond (edge_from e) \<noteq> None
       \<and> diamondRank (edge_from e) < diamondRank (edge_to e)"
  unfolding diamondEdges_def
  by (simp add: diamond_findNode mkEdge_def diamondRank_def)


lemma diamond_reachable_d: "reachable diamond diamondEdges dOut dD"
proof -
  have b: "reachable diamond diamondEdges dOut dB"
  proof (rule reachable.step[OF reachable.start, of "mkEdge ''b'' ''out'' ''color'' fragment"])
    show "mkEdge ''b'' ''out'' ''color'' fragment \<in> set diamondEdges" by (simp add: diamondEdges_def)
    show "edge_to (mkEdge ''b'' ''out'' ''color'' fragment) = node_id dOut"
      by (simp add: mkEdge_def dOut_def mkNode_def)
    show "findNode diamond (edge_from (mkEdge ''b'' ''out'' ''color'' fragment)) = Some dB"
      by (simp add: mkEdge_def diamond_findNode)
  qed
  show ?thesis
  proof (rule reachable.step[OF b, of "mkEdge ''d'' ''b'' ''a'' fragment"])
    show "mkEdge ''d'' ''b'' ''a'' fragment \<in> set diamondEdges" by (simp add: diamondEdges_def)
    show "edge_to (mkEdge ''d'' ''b'' ''a'' fragment) = node_id dB"
      by (simp add: mkEdge_def dB_def mkNode_def)
    show "findNode diamond (edge_from (mkEdge ''d'' ''b'' ''a'' fragment)) = Some dD"
      by (simp add: mkEdge_def diamond_findNode)
  qed
qed

text \<open>
  C6 (amended). collectConnectedNodes walks depth-first backward over the incoming
  edges. When it returns, the keys of its result are those of the given mapping together
  with the ids of exactly the nodes reachable backward from the start node, every new
  entry is a reachable node under its own id, and from the empty mapping every
  reachable node is found under its id. The recursion enters exactly the reachable
  nodes (the start node first). A node with no incoming edge yields the given mapping
  extended by itself. When every edge leads from an existing node to a node of higher
  rank (the graph is acyclic and has no dangling edge), fuel above the rank of the
  start node is enough for it to return. The given mapping is carried along but never
  consulted: there is no memoization (see the counterexample below).
\<close>

theorem collectConnectedNodes_reachable:
  "(collectConnectedNodes fuel graph edges node ids = Inr result \<longrightarrow>
      fst ` set result = fst ` set ids \<union> node_id ` {k. reachable graph edges node k}
      \<and> (\<forall>i v. (i, v) \<in> set result \<longrightarrow>
             (i, v) \<in> set ids \<or> (reachable graph edges node v \<and> node_id v = i))
      \<and> (ids = [] \<and> findNode graph (node_id node) = Some node \<longrightarrow>
             (\<forall>k. reachable graph edges node k \<longrightarrow> map_of result (node_id k) = Some k)))
   \<and> (collectCalls fuel graph edges node = Inr calls \<longrightarrow>
         set calls = node_id ` {k. reachable graph edges node k} \<and> hd calls = node_id node)
   \<and> (filter (\<lambda>edge. edge_to edge = node_id node) edges = [] \<longrightarrow>
         collectConnectedNodes (Suc fuel) graph edges node ids = Inr (putId (node_id node) node ids))
   \<and> ((\<forall>e \<in> set edges. findNode graph (edge_from e) \<noteq> None
                           \<and> rank (edge_from e) < rank (edge_to e))
        \<and> rank (node_id node) < fuel \<longrightarrow>
         (\<exists>r. collectConnectedNodes fuel graph edges node ids = Inr r))"
proof (intro conjI impI)
  assume r: "collectConnectedNodes fuel graph edges node ids = Inr result"
  have c: "collected graph edges ids {k. reachable graph edges node k} result"
    using collectConnectedNodes_result[OF r] by (rule conjunct1)
  show "fst ` set result = fst ` set ids \<union> node_id ` {k. reachable graph edges node k}"
    by (rule collected_keys[OF c])
  show "\<forall>i v. (i, v) \<in> set result \<longrightarrow>
             (i, v) \<in> set ids \<or> (reachable graph edges node v \<and> node_id v = i)"
    using collected_entry[OF c] by simp
  assume "ids = [] \<and> findNode graph (node_id node) = Some node"
  then show "\<forall>k. reachable graph edges node k \<longrightarrow> map_of result (node_id k) = Some k"
    using collected_values[of graph edges node result] c by simp
next
  assume "collectCalls fuel graph edges node = Inr calls"
  then show "set calls = node_id ` {k. reachable graph edges node k}" "hd calls = node_id node"
    using collectCalls_result by blast+
next
  assume "filter (\<lambda>edge. edge_to edge = node_id node) edges = []"
  then show "collectConnectedNodes (Suc fuel) graph edges node ids = Inr (putId (node_id node) node ids)"
    by (rule collectConnectedNodes_leaf)
next
  assume "(\<forall>e \<in> set edges. findNode graph (edge_from e) \<noteq> None
                           \<and> rank (edge_from e) < rank (edge_to e))
        \<and> rank (node_id node) < fuel"
  then show "\<exists>r. collectConnectedNodes fuel graph edges node ids = Inr r"
    using collectConnectedNodes_total[of edges graph rank node fuel ids] by blast
qed

text \<open>The theorem on the diamond, collected from its output with fuel 3.\<close>

theorem collectConnectedNodes_reachable_witness:
  "collectConnectedNodes 3 diamond diamondEdges dOut []
     = Inr [(''d'', dD), (''b'', dB), (''c'', dC), (''out'', dOut)]
   \<and> {''d'', ''b'', ''c'', ''out''} = node_id ` {k. reachable diamond diamondEdges dOut k}
   \<and> collectCalls 3 diamond diamondEdges dOut = Inr [''out'', ''b'', ''d'', ''c'', ''d'']
   \<and> filter (\<lambda>edge. edge_to edge = node_id dD) diamondEdges = []
   \<and> collectConnectedNodes (Suc 3) diamond diamondEdges dD [] = Inr (putId (node_id dD) dD [])
   \<and> diamondRank (node_id dOut) < 3
   \<and> (\<exists>r. collectConnectedNodes 3 diamond diamondEdges dOut [] = Inr r)
   \<and> findNode diamond (node_id dOut) = Some dOut
   \<and> reachable diamond diamondEdges dOut dD
   \<and> map_of [(''d'', dD), (''b'', dB), (''c'', dC), (''out'', dOut)] (node_id dD) = Some dD"
proof -
  note inst = collectConnectedNodes_reachable[of 3 diamond diamondEdges dOut "[]"
      "[(''d'', dD), (''b'', dB), (''c'', dC), (''out'', dOut)]"
      "[''out'', ''b'', ''d'', ''c'', ''d'']" diamondRank]
  have k: "{''d'', ''b'', ''c'', ''out''} = node_id ` {k. reachable diamond diamondEdges dOut k}"
    using inst[THEN conjunct1, THEN mp, OF diamond_collect, THEN conjunct1] by simp
  have rk: "diamondRank (node_id dOut) < 3"
    by (simp add: diamondRank_def dOut_def mkNode_def)
  have leaf: "collectConnectedNodes (Suc 3) diamond diamondEdges dD [] = Inr (putId (node_id dD) dD [])"
    using collectConnectedNodes_reachable[of 3 diamond diamondEdges dD "[]" "[]" "[]" diamondRank,
        THEN conjunct2, THEN conjunct2, THEN conjunct1, THEN mp, OF diamond_leaf] .
  have tot: "\<exists>r. collectConnectedNodes 3 diamond diamondEdges dOut [] = Inr r"
    using inst[THEN conjunct2, THEN conjunct2, THEN conjunct2, THEN mp, OF conjI[OF diamond_rank rk]] .
  have h: "[] = ([]::NodeIds) \<and> findNode diamond (node_id dOut) = Some dOut"
    by (simp add: diamond_findNode dOut_def mkNode_def)
  have v: "map_of [(''d'', dD), (''b'', dB), (''c'', dC), (''out'', dOut)] (node_id dD) = Some dD"
    using inst[THEN conjunct1, THEN mp, OF diamond_collect,
      THEN conjunct2, THEN conjunct2, THEN mp, OF h, THEN spec, THEN mp, OF diamond_reachable_d] .
  show ?thesis
    using diamond_collect k diamond_calls diamond_leaf leaf rk tot conjunct2[OF h]
      diamond_reachable_d v by (intro conjI)
qed

text \<open>
  No lookup in \<open>ids\<close> guards the recursion: in the diamond the shared node \<open>d\<close> is
  entered twice, once through \<open>b\<close> and once through \<open>c\<close>; and a start node already in
  the mapping is traversed again (its source \<open>d\<close> is added).
\<close>

theorem collectConnectedNodes_revisits:
  "collectCalls 3 diamond diamondEdges dOut = Inr [''out'', ''b'', ''d'', ''c'', ''d'']
   \<and> collectConnectedNodes 2 diamond diamondEdges dB [(''b'', dB)]
       = Inr [(''b'', dB), (''d'', dD)]"
  by code_simp

section \<open>Compiling nodes and graphs\<close>

















section \<open>Mangling\<close>








section \<open>The Uniform strategy\<close>

lemma mapE_Inr_length: "mapE f xs = Inr ys \<Longrightarrow> length ys = length xs"
  by (induction xs arbitrary: ys) (auto split: sum.splits)

lemma mapE_Inr_nth: "mapE f xs = Inr ys \<Longrightarrow> i < length xs \<Longrightarrow> f (xs ! i) = Inr (ys ! i)"
proof (induction xs arbitrary: ys i)
  case Nil
  then show ?case by simp
next
  case (Cons x xs)
  from Cons.prems(1) obtain y ys' where y: "f x = Inr y" "mapE f xs = Inr ys'" "ys = y # ys'"
    by (auto split: sum.splits)
  show ?case
  proof (cases i)
    case 0
    then show ?thesis using y by simp
  next
    case (Suc j)
    then show ?thesis using Cons.IH[OF y(2), of j] Cons.prems(2) y(3) by simp
  qed
qed

lemma mapE_total: "(\<And>x. x \<in> set xs \<Longrightarrow> \<exists>y. f x = Inr y) \<Longrightarrow> \<exists>ys. mapE f xs = Inr ys"
proof (induction xs)
  case Nil
  then show ?case by simp
next
  case (Cons x xs)
  obtain y where "f x = Inr y" using Cons.prems[of x] by auto
  moreover obtain ys where "mapE f xs = Inr ys" using Cons.IH Cons.prems by auto
  ultimately show ?case by simp
qed

lemma uniform_statement_inputs:
  assumes "(if isUniformDeclaration node
            then (case declaredNames node of
                    Inl e \<Rightarrow> Inl e
                  | Inr names \<Rightarrow> Inr (map (\<lambda>name. (uniformInput name, fl (length names) name)) names))
            else Inr []) = Inr r"
  shows "map fst r = uniformInputsOf node"
  using assms
  by (auto simp: uniformInputsOf_def isUniformDeclaration_def o_def split: if_splits sum.splits)

lemma strategy_UNIFORM_descriptors:
  assumes "strategy_UNIFORM ext mangleName graphNode ast = Inr inputs"
    and "getProp ''program'' ast = Some (AstArr stmts)"
  shows "map fst inputs = concat (map uniformInputsOf stmts)"
proof -
  let ?f = "\<lambda>(i, node).
                   if isUniformDeclaration node
                   then (case declaredNames node of
                           Inl e \<Rightarrow> Inl e
                         | Inr names \<Rightarrow>
                             Inr (map (\<lambda>name. (uniformInput name,
                                                 uniform_filler ext mangleName graphNode i (length names) name))
                                    names))
                   else Inr []"
  from assms obtain rs where rs: "mapE ?f (zip [0 ..< length stmts] stmts) = Inr rs"
    and inp: "inputs = concat rs"
    unfolding strategy_UNIFORM_def by (auto split: sum.splits)
  have len: "length rs = length stmts" using mapE_Inr_length[OF rs] by simp
  have "map (map fst) rs = map uniformInputsOf stmts"
  proof (rule nth_equalityI)
    show "length (map (map fst) rs) = length (map uniformInputsOf stmts)" using len by simp
  next
    fix i assume "i < length (map (map fst) rs)"
    then have i: "i < length stmts" using len by simp
    have "?f (zip [0 ..< length stmts] stmts ! i) = Inr (rs ! i)"
      using mapE_Inr_nth[OF rs, of i] i by simp
    then have "?f (i, stmts ! i) = Inr (rs ! i)" using i by simp
    then have "map fst (rs ! i) = uniformInputsOf (stmts ! i)"
      using uniform_statement_inputs[of "stmts ! i" "uniform_filler ext mangleName graphNode i" "rs ! i"]
      by simp
    then show "map (map fst) rs ! i = map uniformInputsOf stmts ! i" using i len by simp
  qed
  then show ?thesis unfolding inp by (simp add: map_concat)
qed

lemma uniformInputsOf_cases:
  "uniformInputsOf node = [] \<or> (\<exists>names. uniformInputsOf node = map uniformInput names)"
proof (cases "declaredNames node")
  case (Inl e)
  then have "uniformInputsOf node = []" unfolding uniformInputsOf_def by simp
  then show ?thesis by (rule disjI1)
next
  case (Inr names)
  then have "uniformInputsOf node = [] \<or> uniformInputsOf node = map uniformInput names"
    unfolding uniformInputsOf_def by simp
  then show ?thesis by blast
qed

lemma uniformInputsOf_data:
  assumes "d \<in> set (uniformInputsOf node)"
  shows "input_category d = ''data'' \<and> input_bakeable d \<and> input_id d = input_name d"
proof -
  from uniformInputsOf_cases[of node] assms obtain names where "d \<in> set (map uniformInput names)"
    by auto
  then obtain name where "d = uniformInput name" by auto
  then show ?thesis by (simp add: uniformInput_def)
qed

lemma strategy_UNIFORM_total:
  assumes p: "getProp ''program'' ast = Some (AstArr stmts)"
    and d: "\<forall>node \<in> set stmts. isUniformDeclaration node \<longrightarrow> (\<exists>names. declaredNames node = Inr names)"
  shows "\<exists>inputs. strategy_UNIFORM ext mangleName graphNode ast = Inr inputs"
proof -
  let ?f = "\<lambda>(i, node).
                   if isUniformDeclaration node
                   then (case declaredNames node of
                           Inl e \<Rightarrow> Inl e
                         | Inr names \<Rightarrow>
                             Inr (map (\<lambda>name. (uniformInput name,
                                                 uniform_filler ext mangleName graphNode i (length names) name))
                                    names))
                   else Inr []"
  have "\<exists>rs. mapE ?f (zip [0 ..< length stmts] stmts) = Inr rs"
  proof (rule mapE_total)
    fix x assume "x \<in> set (zip [0 ..< length stmts] stmts)"
    then have "snd x \<in> set stmts" using set_zip_rightD[of "fst x" "snd x"] by simp
    then show "\<exists>y. ?f x = Inr y" using d by (cases x) auto
  qed
  then show ?thesis unfolding strategy_UNIFORM_def using p by auto
qed

lemma uniformsAst_program:
  "getProp ''program'' uniformsAst
     = Some (AstArr [mkUniformDeclaration [''uniform''] ''vec4'' [''color''],
                     mkUniformDeclaration [''uniform''] ''sampler2D'' [''tex''],
                     mkUniformDeclaration [''uniform''] ''float'' [''a'', ''b''],
                     mkUniformDeclaration [''varying''] ''vec2'' [''vUv'']])"
  by (simp add: uniformsAst_def mkProgram_def)

lemma uniformsAst_names:
  "declaredNames (mkUniformDeclaration q ty names) = Inr names"
proof -
  have "mapE (\<lambda>d. case getPath [''identifier'', ''identifier''] d of
                       Some (AstStr name) \<Rightarrow> Inr name
                     | _ \<Rightarrow> Inl (TypeError ''identifier''))
          (map (\<lambda>n. AstObj [(''type'', AstStr ''declaration''), (''identifier'', mkIdentifier n)]) names)
        = Inr names"
    by (induction names) (simp_all add: mkIdentifier_def)
  then show ?thesis by (simp add: declaredNames_def mkUniformDeclaration_def)
qed

text \<open>
  C5 (amended). Applied to a node's tree, the Uniform strategy selects exactly the
  top-level declaration statements qualified \<open>uniform\<close> whose declared type is not
  \<open>sampler2D\<close>: its inputs are, statement by statement and name by name, one input per
  declared name of such a declaration, each with its name as id, category "data" and
  bakeable; a uniform declaration of type \<open>sampler2D\<close> produces no input. The strategy
  returns whenever the selected declarations carry their declared names. Sampler types
  other than \<open>sampler2D\<close> are not excluded.
\<close>

theorem strategy_UNIFORM_inputs:
  "getProp ''program'' ast = Some (AstArr stmts) \<longrightarrow>
     (strategy_UNIFORM ext mangleName graphNode ast = Inr inputs \<longrightarrow>
        map fst inputs = concat (map uniformInputsOf stmts)
        \<and> (\<forall>d \<in> set (map fst inputs). input_category d = ''data'' \<and> input_bakeable d))
     \<and> ((\<forall>node \<in> set stmts. isUniformDeclaration node \<longrightarrow> (\<exists>names. declaredNames node = Inr names)) \<longrightarrow>
        (\<exists>inputs. strategy_UNIFORM ext mangleName graphNode ast = Inr inputs))
     \<and> (\<forall>node \<in> set stmts. uniformType node = Some (AstStr ''sampler2D'') \<longrightarrow> uniformInputsOf node = [])
     \<and> (\<forall>node \<in> set stmts. \<forall>names. isUniformDeclaration node \<and> declaredNames node = Inr names \<longrightarrow>
           uniformInputsOf node = map uniformInput names)"
proof (intro impI conjI)
  assume p: "getProp ''program'' ast = Some (AstArr stmts)"
  {
    assume s: "strategy_UNIFORM ext mangleName graphNode ast = Inr inputs"
    show m: "map fst inputs = concat (map uniformInputsOf stmts)"
      by (rule strategy_UNIFORM_descriptors[OF s p])
    show "\<forall>d \<in> set (map fst inputs). input_category d = ''data'' \<and> input_bakeable d"
      unfolding m using uniformInputsOf_data by auto
  }
  {
    assume "\<forall>node \<in> set stmts. isUniformDeclaration node \<longrightarrow> (\<exists>names. declaredNames node = Inr names)"
    then show "\<exists>inputs. strategy_UNIFORM ext mangleName graphNode ast = Inr inputs"
      by (rule strategy_UNIFORM_total[OF p])
  }
  show "\<forall>node \<in> set stmts. uniformType node = Some (AstStr ''sampler2D'') \<longrightarrow> uniformInputsOf node = []"
    by (simp add: uniformInputsOf_def)
  show "\<forall>node \<in> set stmts. \<forall>names. isUniformDeclaration node \<and> declaredNames node = Inr names \<longrightarrow>
           uniformInputsOf node = map uniformInput names"
    by (simp add: uniformInputsOf_def isUniformDeclaration_def)
qed

text \<open>The theorem on \<^verbatim>\<open>uniform vec4 color; uniform sampler2D tex; uniform float a, b;
  varying vec2 vUv;\<close>: the inputs \<open>color\<close>, \<open>a\<close> and \<open>b\<close>.\<close>

theorem strategy_UNIFORM_inputs_witness:
  "getProp ''program'' uniformsAst
     = Some (AstArr [mkUniformDeclaration [''uniform''] ''vec4'' [''color''],
                     mkUniformDeclaration [''uniform''] ''sampler2D'' [''tex''],
                     mkUniformDeclaration [''uniform''] ''float'' [''a'', ''b''],
                     mkUniformDeclaration [''varying''] ''vec2'' [''vUv'']])
   \<and> (\<exists>inputs. strategy_UNIFORM ext0 mangleName0 shaderF uniformsAst = Inr inputs
          \<and> map fst inputs = [uniformInput ''color'', uniformInput ''a'', uniformInput ''b''])
   \<and> uniformType (mkUniformDeclaration [''uniform''] ''sampler2D'' [''tex'']) = Some (AstStr ''sampler2D'')
   \<and> uniformInputsOf (mkUniformDeclaration [''uniform''] ''sampler2D'' [''tex'']) = []
   \<and> isUniformDeclaration (mkUniformDeclaration [''uniform''] ''float'' [''a'', ''b''])
   \<and> uniformInputsOf (mkUniformDeclaration [''uniform''] ''float'' [''a'', ''b''])
       = [uniformInput ''a'', uniformInput ''b'']"
proof -
  let ?stmts = "[mkUniformDeclaration [''uniform''] ''vec4'' [''color''],
                 mkUniformDeclaration [''uniform''] ''sampler2D'' [''tex''],
                 mkUniformDeclaration [''uniform''] ''float'' [''a'', ''b''],
                 mkUniformDeclaration [''varying''] ''vec2'' [''vUv'']]"
  have tot: "\<forall>node \<in> set ?stmts. isUniformDeclaration node \<longrightarrow> (\<exists>names. declaredNames node = Inr names)"
    by (simp add: uniformsAst_names)
  have st: "uniformType (mkUniformDeclaration [''uniform''] ''sampler2D'' [''tex'']) = Some (AstStr ''sampler2D'')"
    by code_simp
  have ud: "isUniformDeclaration (mkUniformDeclaration [''uniform''] ''float'' [''a'', ''b''])"
    by code_simp
  have m1: "mkUniformDeclaration [''uniform''] ''sampler2D'' [''tex''] \<in> set ?stmts" by simp
  have m2: "mkUniformDeclaration [''uniform''] ''float'' [''a'', ''b''] \<in> set ?stmts" by simp
  obtain inputs where i: "strategy_UNIFORM ext0 mangleName0 shaderF uniformsAst = Inr inputs"
    using strategy_UNIFORM_inputs[of uniformsAst ?stmts ext0 mangleName0 shaderF "[]",
        THEN mp, OF uniformsAst_program, THEN conjunct2, THEN conjunct1, THEN mp, OF tot]
    by blast
  note inst = strategy_UNIFORM_inputs[of uniformsAst ?stmts ext0 mangleName0 shaderF inputs,
        THEN mp, OF uniformsAst_program]
  have c: "concat (map uniformInputsOf ?stmts) = [uniformInput ''color'', uniformInput ''a'', uniformInput ''b'']"
    by code_simp
  have d: "map fst inputs = [uniformInput ''color'', uniformInput ''a'', uniformInput ''b'']"
    using inst[THEN conjunct1, THEN mp, OF i, THEN conjunct1] unfolding c .
  have s: "uniformInputsOf (mkUniformDeclaration [''uniform''] ''sampler2D'' [''tex'']) = []"
    using inst[THEN conjunct2, THEN conjunct2, THEN conjunct1, THEN bspec, OF m1, THEN mp, OF st] .
  have n: "uniformInputsOf (mkUniformDeclaration [''uniform''] ''float'' [''a'', ''b''])
       = map uniformInput [''a'', ''b'']"
    using inst[THEN conjunct2, THEN conjunct2, THEN conjunct2, THEN bspec, OF m2, THEN spec, THEN mp,
        OF conjI[OF ud uniformsAst_names]] .
  have e: "\<exists>inputs. strategy_UNIFORM ext0 mangleName0 shaderF uniformsAst = Inr inputs
          \<and> map fst inputs = [uniformInput ''color'', uniformInput ''a'', uniformInput ''b'']"
    by (intro exI[of _ inputs] conjI i d)
  have n': "uniformInputsOf (mkUniformDeclaration [''uniform''] ''float'' [''a'', ''b''])
       = [uniformInput ''a'', uniformInput ''b'']" using n by simp
  show ?thesis using uniformsAst_program e st s ud n' by (intro conjI)
qed

text \<open>
  \<^verbatim>\<open>uniform samplerCube env;\<close> declares a uniform of a sampler type and yields
  the input \<open>env\<close>: only the type \<open>sampler2D\<close> is excluded.
\<close>

theorem strategy_UNIFORM_samplerCube:
  "isSamplerType ''samplerCube''
   \<and> uniformType (mkUniformDeclaration [''uniform''] ''samplerCube'' [''env''])
       = Some (AstStr ''samplerCube'')
   \<and> getProp ''program'' cubeAst = Some (AstArr [mkUniformDeclaration [''uniform''] ''samplerCube'' [''env'']])
   \<and> descriptors (strategy_UNIFORM ext0 mangleName0 shaderF cubeAst) = Inr [uniformInput ''env'']"
  by code_simp

section \<open>The Texture2D strategy\<close>














subsection \<open>Orphan edges\<close>



















subsection \<open>Fuel and the counter of the context\<close>



















end
